theory Spec2Isabelle
  imports Main
begin

section \<open>JavaScript values used by the onboarding helpers\<close>

text \<open>
  A JavaScript string is modelled as a \<^typ>\<open>string\<close>, one \<^typ>\<open>char\<close> per code unit;
  the model covers the strings whose code units are below 256. An allowlist entry is
  \<^verbatim>\<open>string | number\<close>; a numeric entry is an integer, which \<^verbatim>\<open>String(v)\<close> renders in
  plain decimal (fractions, NaN, infinities and magnitudes from 10^21 on are outside the
  model).
\<close>

datatype raw = Str string | Num int

definition digit_char :: "nat \<Rightarrow> char" where
  "digit_char d = ''0123456789'' ! d"

function show_nat :: "nat \<Rightarrow> string" where
  "show_nat n = (if n < 10 then [digit_char n] else show_nat (n div 10) @ [digit_char (n mod 10)])"
  by pat_completeness auto
termination
  by (relation "measure id") auto

declare show_nat.simps [simp del]

definition show_int :: "int \<Rightarrow> string" where
  "show_int i = (if i < 0 then CHR ''-'' # show_nat (nat (- i)) else show_nat (nat i))"

text \<open>\<^verbatim>\<open>String(v)\<close> on \<^verbatim>\<open>string | number\<close>.\<close>

fun String :: "raw \<Rightarrow> string" where
  "String (Str s) = s"
| "String (Num n) = show_int n"

text \<open>JavaScript truthiness of \<^verbatim>\<open>string | number\<close>: the empty string and 0 are falsy.\<close>

fun truthy :: "raw \<Rightarrow> bool" where
  "truthy (Str s) = (s \<noteq> [])"
| "truthy (Num n) = (n \<noteq> 0)"

text \<open>
  \<^verbatim>\<open>String.prototype.trim\<close> strips white space and line terminators from both ends. Of
  those, the code units below 256 are TAB, LF, VT, FF, CR, SP and NBSP.
\<close>

definition is_ws :: "char \<Rightarrow> bool" where
  "is_ws c \<longleftrightarrow> c = CHR 0x09 \<or> c = CHR 0x0A \<or> c = CHR 0x0B \<or> c = CHR 0x0C \<or> c = CHR 0x0D
     \<or> c = CHR 0x20 \<or> c = CHR 0xA0"

definition trim :: "string \<Rightarrow> string" where
  "trim s = rev (dropWhile is_ws (rev (dropWhile is_ws s)))"

text \<open>\<^verbatim>\<open>.filter(Boolean)\<close> on an array of strings keeps the non-empty ones.\<close>

definition filter_Boolean :: "string list \<Rightarrow> string list" where
  "filter_Boolean xs = filter (\<lambda>s. s \<noteq> []) xs"

text \<open>
  \<^verbatim>\<open>[...new Set(xs)]\<close>: a JavaScript Set iterates in insertion order, and adding a value
  that is already a member changes nothing.
\<close>

definition Set_add :: "'a list \<Rightarrow> 'a \<Rightarrow> 'a list" where
  "Set_add seen x = (if x \<in> set seen then seen else seen @ [x])"

definition Set_of :: "'a list \<Rightarrow> 'a list" where
  "Set_of xs = foldl Set_add [] xs"

text \<open>\<^verbatim>\<open>xs.join(sep)\<close>.\<close>

fun join :: "string \<Rightarrow> string list \<Rightarrow> string" where
  "join sep [] = []"
| "join sep [x] = x"
| "join sep (x # y # ys) = x @ sep @ join sep (y # ys)"

text \<open>
  \<^verbatim>\<open>raw.split(/[\n,;]+/g)\<close>: the text before the first separator run, then the split of
  what follows the run; a string without separator is returned whole, so the empty
  string gives one empty segment.
\<close>

definition is_sep :: "char \<Rightarrow> bool" where
  "is_sep c \<longleftrightarrow> c = CHR 0x0A \<or> c = CHR '','' \<or> c = CHR '';''"

function split_runs :: "(char \<Rightarrow> bool) \<Rightarrow> string \<Rightarrow> string list" where
  "split_runs sep s =
     (let seg = takeWhile (\<lambda>c. \<not> sep c) s; rest = dropWhile (\<lambda>c. \<not> sep c) s
      in if rest = [] then [seg] else seg # split_runs sep (dropWhile sep rest))"
  by pat_completeness auto
termination
proof (relation "measure (\<lambda>(sep, s). length s)")
  show "wf (measure (\<lambda>(sep, s). length s))" by simp
next
  fix sep :: "char \<Rightarrow> bool" and s seg rest :: string
  assume rest: "rest = dropWhile (\<lambda>c. \<not> sep c) s" and ne: "rest \<noteq> []"
  from ne obtain c cs where c: "rest = c # cs" by (cases rest) auto
  from rest c have "dropWhile (\<lambda>c. \<not> sep c) s = c # cs" by simp
  then have "sep c" unfolding dropWhile_eq_Cons_conv by simp
  then have "length (dropWhile sep rest) \<le> length cs"
    using c by (simp add: length_dropWhile_le)
  moreover have "length rest \<le> length s"
    using rest by (simp add: length_dropWhile_le)
  ultimately show "((sep, dropWhile sep rest), (sep, s)) \<in> measure (\<lambda>(sep, s). length s)"
    using c by simp
qed

declare split_runs.simps [simp del]

section \<open>The helpers\<close>

text \<open>\<^verbatim>\<open>addWildcardAllowFrom\<close>; \<^verbatim>\<open>allowFrom ?? []\<close> reads an absent list as empty.\<close>

definition addWildcardAllowFrom :: "raw list option \<Rightarrow> string list" where
  "addWildcardAllowFrom allowFrom =
     (let next = filter_Boolean (map (\<lambda>v. trim (String v)) (case allowFrom of None \<Rightarrow> [] | Some xs \<Rightarrow> xs))
      in if ''*'' \<notin> set next then next @ [''*''] else next)"

definition mergeAllowFromEntries :: "raw list option \<Rightarrow> raw list \<Rightarrow> string list" where
  "mergeAllowFromEntries current additions =
     (let merged = filter_Boolean
            (map (\<lambda>v. trim (String v)) ((case current of None \<Rightarrow> [] | Some xs \<Rightarrow> xs) @ additions))
      in Set_of merged)"

definition splitOnboardingEntries :: "string \<Rightarrow> string list" where
  "splitOnboardingEntries raw = filter_Boolean (map trim (split_runs is_sep raw))"

text \<open>
  \<^verbatim>\<open>normalizeAllowFromEntries\<close>. The optional normalizer returns
  \<^verbatim>\<open>string | null | undefined\<close>: \<open>None\<close> stands for both \<^verbatim>\<open>null\<close> and \<^verbatim>\<open>undefined\<close>.
\<close>

definition normalizeAllowFromEntries ::
  "raw list \<Rightarrow> (string \<Rightarrow> string option) option \<Rightarrow> string list" where
  "normalizeAllowFromEntries entries normalizeEntry =
     (let normalized = filter_Boolean
            (map (\<lambda>entry.
                    if entry = ''*'' then ''*''
                    else (case normalizeEntry of
                            None \<Rightarrow> entry
                          | Some f \<Rightarrow> (case f entry of Some v \<Rightarrow> trim v | None \<Rightarrow> [])))
               (filter_Boolean (map (\<lambda>entry. trim (String entry)) entries)))
      in Set_of normalized)"

subsection \<open>Account resolution\<close>


text \<open>
  An awaited call either throws (\<open>Inl\<close>) or returns (\<open>Inr\<close>), and leaves the world
  (the terminal, the network, the mocks' counters) in a new state.
\<close>

type_synonym ('e, 'a, 'w) io = "'w \<Rightarrow> ('e + 'a) \<times> 'w"




subsection \<open>Configuration snapshots\<close>

text \<open>
  Modelled from the spec: the types \<^verbatim>\<open>OpenClawConfig\<close> (\<^verbatim>\<open>config/config.js\<close>) and
  \<^verbatim>\<open>DmPolicy\<close> (\<^verbatim>\<open>config/types.js\<close>) are declared outside the sources at hand. The
  snapshot has the shape that the specification gives it, which is the one the helpers
  and their tests read:
  \<^verbatim>\<open>{ channels: { [channelName]: { allowFrom?, dmPolicy?, accounts?: { [accountId]: { allowFrom?, ...other fields } }, ...other fields } } }\<close>.
  Every optional field is an \<open>option\<close>, an object used as a dictionary is a map, and the
  fields the helpers never name (\<^verbatim>\<open>enabled\<close>, \<^verbatim>\<open>account\<close>, ...) are kept in a map from
  field name to value. A dm policy is the text the code compares with \<^verbatim>\<open>"open"\<close>.
\<close>

record 'v AccountConfig =
  acc_allowFrom :: "raw list option"
  acc_other :: "string \<rightharpoonup> 'v"

record 'v ChannelConfig =
  allowFrom :: "raw list option"
  dmPolicy :: "string option"
  accounts :: "(string \<rightharpoonup> 'v AccountConfig) option"
  chan_other :: "string \<rightharpoonup> 'v"

record 'v OpenClawConfig =
  channels :: "(string \<rightharpoonup> 'v ChannelConfig) option"
  cfg_other :: "string \<rightharpoonup> 'v"

text \<open>The \<^verbatim>\<open>channel\<close> parameter has type \<^verbatim>\<open>"imessage" | "signal"\<close>.\<close>

datatype channel = imessage | signal

fun channel_key :: "channel \<Rightarrow> string" where
  "channel_key imessage = ''imessage''"
| "channel_key signal = ''signal''"

text \<open>
  Spreading \<^verbatim>\<open>undefined\<close> (an absent object reached through \<^verbatim>\<open>?.\<close>) copies nothing:
  the object literal then starts from the empty object.
\<close>

definition empty_account :: "'v AccountConfig" where
  "empty_account = \<lparr>acc_allowFrom = None, acc_other = Map.empty\<rparr>"

definition empty_channel :: "'v ChannelConfig" where
  "empty_channel = \<lparr>allowFrom = None, dmPolicy = None, accounts = None, chan_other = Map.empty\<rparr>"

text \<open>\<^verbatim>\<open>cfg.channels\<close> read for spreading, \<^verbatim>\<open>cfg.channels?.[channel]\<close> and
  \<^verbatim>\<open>cfg.channels?.[channel]?.accounts\<close>.\<close>

definition channels_of :: "'v OpenClawConfig \<Rightarrow> (string \<rightharpoonup> 'v ChannelConfig)" where
  "channels_of cfg = (case channels cfg of None \<Rightarrow> Map.empty | Some cs \<Rightarrow> cs)"

definition channel_of :: "'v OpenClawConfig \<Rightarrow> channel \<Rightarrow> 'v ChannelConfig option" where
  "channel_of cfg ch = channels_of cfg (channel_key ch)"

definition accounts_of :: "'v OpenClawConfig \<Rightarrow> channel \<Rightarrow> (string \<rightharpoonup> 'v AccountConfig)" where
  "accounts_of cfg ch =
     (case channel_of cfg ch of
        None \<Rightarrow> Map.empty
      | Some c \<Rightarrow> (case accounts c of None \<Rightarrow> Map.empty | Some as \<Rightarrow> as))"

definition setAccountAllowFromForChannel ::
  "string \<Rightarrow> 'v OpenClawConfig \<Rightarrow> channel \<Rightarrow> string \<Rightarrow> string list \<Rightarrow> 'v OpenClawConfig" where
  "setAccountAllowFromForChannel DEFAULT_ACCOUNT_ID cfg ch accountId allowFrom' =
     (if accountId = DEFAULT_ACCOUNT_ID then
        cfg\<lparr>channels := Some ((channels_of cfg)(channel_key ch \<mapsto>
          (case channel_of cfg ch of None \<Rightarrow> empty_channel | Some c \<Rightarrow> c)
            \<lparr>allowFrom := Some (map Str allowFrom')\<rparr>))\<rparr>
      else
        cfg\<lparr>channels := Some ((channels_of cfg)(channel_key ch \<mapsto>
          (case channel_of cfg ch of None \<Rightarrow> empty_channel | Some c \<Rightarrow> c)
            \<lparr>accounts := Some ((accounts_of cfg ch)(accountId \<mapsto>
               (case accounts_of cfg ch accountId of None \<Rightarrow> empty_account | Some a \<Rightarrow> a)
                 \<lparr>acc_allowFrom := Some (map Str allowFrom')\<rparr>))\<rparr>))\<rparr>)"

text \<open>
  \<^verbatim>\<open>setChannelDmPolicyWithAllowFrom\<close>. An array is truthy even when empty, so
  \<^verbatim>\<open>...(allowFrom ? { allowFrom } : {})\<close> writes the list exactly when the policy is
  \<^verbatim>\<open>"open"\<close>.
\<close>

definition setChannelDmPolicyWithAllowFrom ::
  "'v OpenClawConfig \<Rightarrow> channel \<Rightarrow> string \<Rightarrow> 'v OpenClawConfig" where
  "setChannelDmPolicyWithAllowFrom cfg ch dmPolicy' =
     (let allowFrom' =
            (if dmPolicy' = ''open''
             then Some (addWildcardAllowFrom
                          (case channel_of cfg ch of None \<Rightarrow> None | Some c \<Rightarrow> allowFrom c))
             else None);
          c0 = (case channel_of cfg ch of None \<Rightarrow> empty_channel | Some c \<Rightarrow> c);
          c1 = c0\<lparr>dmPolicy := Some dmPolicy'\<rparr>;
          c2 = (case allowFrom' of None \<Rightarrow> c1 | Some xs \<Rightarrow> c1\<lparr>allowFrom := Some (map Str xs)\<rparr>)
      in cfg\<lparr>channels := Some ((channels_of cfg)(channel_key ch \<mapsto> c2))\<rparr>)"

subsection \<open>The allowlist resolution loop\<close>

text \<open>The argument object of \<^verbatim>\<open>prompter.text\<close>.\<close>

record TextParams =
  text_message :: string
  text_placeholder :: string
  initialValue :: "string option"
  validate :: "string option \<Rightarrow> string option"

text \<open>
  The two operations of \<^verbatim>\<open>WizardPrompter\<close> that the loop calls, \<^verbatim>\<open>text\<close> and
  \<^verbatim>\<open>note\<close> (both names are reserved words here, hence the prefix).
\<close>

record ('e, 'w) WizardPrompter =
  prompt_text :: "TextParams \<Rightarrow> ('e, string, 'w) io"
  prompt_note :: "string \<Rightarrow> string \<Rightarrow> ('e, unit, 'w) io"

text \<open>The field \<^verbatim>\<open>id?: string | null\<close> is \<open>res_id\<close>.\<close>

record AllowFromResolution =
  input :: string
  resolved :: bool
  res_id :: "string option"

text \<open>
  The errors of the prompter (\<open>'e\<close>) and the rejections of \<^verbatim>\<open>resolveEntries\<close> (\<open>'r\<close>) are
  kept in two types, which may be the same.
\<close>

record ('e, 'r, 'w) PromptParams =
  prompter :: "('e, 'w) WizardPrompter"
  existing :: "raw list"
  token :: "string option"
  message :: string
  placeholder :: string
  label :: string
  parseInputs :: "string \<Rightarrow> string list"
  parseId :: "string \<Rightarrow> string option"
  invalidWithoutTokenNote :: string
  resolveEntries :: "string \<Rightarrow> string list \<Rightarrow> ('r, AllowFromResolution list, 'w) io"

text \<open>\<^verbatim>\<open>!params.token\<close>: an absent, null or empty token is falsy.\<close>

definition has_token :: "('e, 'r, 'w) PromptParams \<Rightarrow> bool" where
  "has_token p = (case token p of None \<Rightarrow> False | Some t \<Rightarrow> t \<noteq> [])"

text \<open>The object passed to \<^verbatim>\<open>prompter.text\<close> in every round.\<close>

definition text_args :: "('e, 'r, 'w) PromptParams \<Rightarrow> TextParams" where
  "text_args p =
     \<lparr>text_message = message p,
      text_placeholder = placeholder p,
      initialValue = (case existing p of
                        [] \<Rightarrow> None
                      | v # _ \<Rightarrow> if truthy v then Some (String v) else None),
      validate = (\<lambda>value. if trim (case value of None \<Rightarrow> [] | Some s \<Rightarrow> s) \<noteq> []
                          then None else Some ''Required'')\<rparr>"

text \<open>\<^verbatim>\<open>parts.map(params.parseId).filter(Boolean)\<close> drops \<^verbatim>\<open>null\<close> and the empty string.\<close>

definition parsed_ids :: "(string \<Rightarrow> string option) \<Rightarrow> string list \<Rightarrow> string list" where
  "parsed_ids f parts = filter_Boolean (map (\<lambda>part. case f part of None \<Rightarrow> [] | Some s \<Rightarrow> s) parts)"

text \<open>\<^verbatim>\<open>!res.resolved || !res.id\<close>.\<close>

definition unresolved_res :: "AllowFromResolution \<Rightarrow> bool" where
  "unresolved_res res \<longleftrightarrow> \<not> resolved res \<or> (case res_id res of None \<Rightarrow> True | Some i \<Rightarrow> i = [])"

text \<open>\<^verbatim>\<open>res.id as string\<close> of a result that passed the filter.\<close>

definition id_of :: "AllowFromResolution \<Rightarrow> string" where
  "id_of res = (case res_id res of None \<Rightarrow> [] | Some i \<Rightarrow> i)"

text \<open>
  \<^verbatim>\<open>while (true)\<close> has no bound: the loop is a partial function, \<open>None\<close> when it never
  returns. A throw of \<^verbatim>\<open>prompter.text\<close> or \<^verbatim>\<open>prompter.note\<close> leaves the function; a
  rejection of \<^verbatim>\<open>resolveEntries\<close> is turned into \<^verbatim>\<open>null\<close> by \<^verbatim>\<open>.catch(() => null)\<close>.
\<close>

partial_function (option) promptResolvedAllowFrom ::
  "('e, 'r, 'w) PromptParams \<Rightarrow> 'w \<Rightarrow> (('e + string list) \<times> 'w) option" where
  "promptResolvedAllowFrom p w =
     (case prompt_text (prompter p) (text_args p) w of
        (Inl e, w1) \<Rightarrow> Some (Inl e, w1)
      | (Inr entry, w1) \<Rightarrow>
          (let parts = parseInputs p entry in
           if \<not> has_token p then
             (let ids = parsed_ids (parseId p) parts in
              if length ids \<noteq> length parts then
                (case prompt_note (prompter p) (invalidWithoutTokenNote p) (label p) w1 of
                   (Inl e, w2) \<Rightarrow> Some (Inl e, w2)
                 | (Inr _, w2) \<Rightarrow> promptResolvedAllowFrom p w2)
              else Some (Inr (mergeAllowFromEntries (Some (existing p)) (map Str ids)), w1))
           else
             (case resolveEntries p (the (token p)) parts w1 of
                (Inl _, w2) \<Rightarrow>
                  (case prompt_note (prompter p) ''Failed to resolve usernames. Try again.'' (label p) w2 of
                     (Inl e, w3) \<Rightarrow> Some (Inl e, w3)
                   | (Inr _, w3) \<Rightarrow> promptResolvedAllowFrom p w3)
              | (Inr results, w2) \<Rightarrow>
                  (let unresolved = filter unresolved_res results in
                   if length unresolved > 0 then
                     (case prompt_note (prompter p)
                             (''Could not resolve: '' @ join '', '' (map input unresolved))
                             (label p) w2 of
                        (Inl e, w3) \<Rightarrow> Some (Inl e, w3)
                      | (Inr _, w3) \<Rightarrow> promptResolvedAllowFrom p w3)
                   else Some (Inr (mergeAllowFromEntries (Some (existing p)) (map Str (map id_of results))), w2)))))"

section \<open>Notions of the specification\<close>

text \<open>
  The specification speaks of the ``trimmed, non-empty text values'' of a collection and
  of ``duplicates removed, preserving first-occurrence order''. Both are written here
  after its words, to be compared with what the code computes.
\<close>

definition texts_of :: "raw list \<Rightarrow> string list" where
  "texts_of vs = filter (\<lambda>s. s \<noteq> []) (map (\<lambda>v. trim (String v)) vs)"

primrec first_occurrences :: "'a list \<Rightarrow> 'a list" where
  "first_occurrences [] = []"
| "first_occurrences (x # xs) = x # filter (\<lambda>y. y \<noteq> x) (first_occurrences xs)"

text \<open>
  What one trimmed entry contributes to the normalized list, after the specification: the
  wildcard itself, the trimmed result of the normalizer, or nothing when that result is
  absent or empty.
\<close>

definition normalized_entry :: "(string \<Rightarrow> string option) \<Rightarrow> string \<Rightarrow> string list" where
  "normalized_entry f e =
     (if e = ''*'' then [''*'']
      else (case f e of None \<Rightarrow> [] | Some v \<Rightarrow> if trim v = [] then [] else [trim v]))"

text \<open>
  ``The channel's object'' and ``the account's object'' of a snapshot, the empty object when
  the snapshot has none: what \<^verbatim>\<open>...cfg.channels?.[channel]\<close> spreads.
\<close>

definition channel_or_empty :: "'v OpenClawConfig \<Rightarrow> channel \<Rightarrow> 'v ChannelConfig" where
  "channel_or_empty cfg ch = (case channel_of cfg ch of None \<Rightarrow> empty_channel | Some c \<Rightarrow> c)"

definition account_or_empty :: "'v OpenClawConfig \<Rightarrow> channel \<Rightarrow> string \<Rightarrow> 'v AccountConfig" where
  "account_or_empty cfg ch a = (case accounts_of cfg ch a of None \<Rightarrow> empty_account | Some x \<Rightarrow> x)"

section \<open>Ghost state\<close>

text \<open>
  A ghost counter for the calls of \<^verbatim>\<open>resolveEntries\<close>: the same capabilities, on a world
  that carries the number of calls made so far.
\<close>

definition counting :: "('e, 'r, 'w) PromptParams \<Rightarrow> ('e, 'r, 'w \<times> nat) PromptParams" where
  "counting p =
     \<lparr>prompter =
        \<lparr>prompt_text = (\<lambda>tp (w, n). case prompt_text (prompter p) tp w of (r, w') \<Rightarrow> (r, (w', n))),
         prompt_note = (\<lambda>msg lbl (w, n). case prompt_note (prompter p) msg lbl w of (r, w') \<Rightarrow> (r, (w', n)))\<rparr>,
      existing = existing p, token = token p, message = message p,
      placeholder = placeholder p, label = label p,
      parseInputs = parseInputs p, parseId = parseId p,
      invalidWithoutTokenNote = invalidWithoutTokenNote p,
      resolveEntries = (\<lambda>tok entries (w, n).
         case resolveEntries p tok entries w of (r, w') \<Rightarrow> (r, (w', Suc n)))\<rparr>"

section \<open>Test doubles\<close>

text \<open>
  The normalizer of \<^verbatim>\<open>helpers.test.ts\<close>, \<^verbatim>\<open>value.startsWith("+1") ? value : null\<close>, and
  a variant that would rewrite the wildcard if it were ever asked to.
\<close>

definition plus_one_only :: "string \<Rightarrow> string option" where
  "plus_one_only v = (if take 2 v = ''+1'' then Some v else None)"

definition wildcard_rewriter :: "string \<Rightarrow> string option" where
  "wildcard_rewriter v = (if v = ''*'' then Some ''everyone'' else plus_one_only v)"


text \<open>
  Snapshots in the manner of \<^verbatim>\<open>helpers.test.ts\<close>; the values of the fields that the
  helpers never name are kept as text.
\<close>

definition cfg_signal_alt :: "string OpenClawConfig" where
  "cfg_signal_alt =
     \<lparr>channels = Some [''signal'' \<mapsto>
        \<lparr>allowFrom = Some [Str ''default-old''], dmPolicy = None,
         accounts = Some [''alt'' \<mapsto>
           \<lparr>acc_allowFrom = Some [Str ''alt-old''],
            acc_other = [''enabled'' \<mapsto> ''true'', ''account'' \<mapsto> ''+15555550123'']\<rparr>],
         chan_other = [''enabled'' \<mapsto> ''true'']\<rparr>],
      cfg_other = Map.empty\<rparr>"

definition cfg_signal_pairing :: "string OpenClawConfig" where
  "cfg_signal_pairing =
     \<lparr>channels = Some [''signal'' \<mapsto>
        \<lparr>allowFrom = Some [Str ''+1555''], dmPolicy = Some ''pairing'',
         accounts = None, chan_other = Map.empty\<rparr>],
      cfg_other = Map.empty\<rparr>"

definition cfg_signal_duplicates :: "string OpenClawConfig" where
  "cfg_signal_duplicates =
     \<lparr>channels = Some [''signal'' \<mapsto>
        \<lparr>allowFrom = Some [Str ''+1555'', Str ''+1555''], dmPolicy = Some ''pairing'',
         accounts = None, chan_other = Map.empty\<rparr>],
      cfg_other = Map.empty\<rparr>"

text \<open>
  The prompter of \<^verbatim>\<open>helpers.test.ts\<close> (\<^verbatim>\<open>createPrompter\<close>: \<^verbatim>\<open>text\<close> answers
  \<^verbatim>\<open>inputs.shift() ?? ""\<close>, \<^verbatim>\<open>note\<close> records its call), a resolver that plays a script of
  rejections and results and records its calls, and the digits-only identifier parser of
  the tests; the parse function is \<^verbatim>\<open>splitOnboardingEntries\<close>. The world is the state of
  these mocks.
\<close>

record World =
  inputs :: "string list"
  responses :: "(string + AllowFromResolution list) list"
  shown_notes :: "(string \<times> string) list"
  resolve_calls :: "(string \<times> string list) list"

definition createPrompter :: "(string, World) WizardPrompter" where
  "createPrompter =
     \<lparr>prompt_text = (\<lambda>tp w. case inputs w of
                                [] \<Rightarrow> (Inr [], w)
                              | x # xs \<Rightarrow> (Inr x, w\<lparr>inputs := xs\<rparr>)),
      prompt_note = (\<lambda>msg lbl w. (Inr (), w\<lparr>shown_notes := shown_notes w @ [(msg, lbl)]\<rparr>))\<rparr>"

definition scripted_resolveEntries ::
  "string \<Rightarrow> string list \<Rightarrow> (string, AllowFromResolution list, World) io" where
  "scripted_resolveEntries tok entries w =
     (case responses w of
        [] \<Rightarrow> (Inl ''no response left'', w\<lparr>resolve_calls := resolve_calls w @ [(tok, entries)]\<rparr>)
      | r # rs \<Rightarrow> (r, w\<lparr>responses := rs, resolve_calls := resolve_calls w @ [(tok, entries)]\<rparr>))"

definition digits_only :: "string \<Rightarrow> string option" where
  "digits_only v = (if trim v \<noteq> [] \<and> (\<forall>c\<in>set (trim v). c \<in> set ''0123456789'') then Some (trim v) else None)"

definition test_params :: "raw list \<Rightarrow> string option \<Rightarrow> (string, string, World) PromptParams" where
  "test_params ex tok =
     \<lparr>prompter = createPrompter, existing = ex, token = tok, message = ''msg'',
      placeholder = ''placeholder'', label = ''allowlist'',
      parseInputs = splitOnboardingEntries, parseId = digits_only,
      invalidWithoutTokenNote = ''ids only'', resolveEntries = scripted_resolveEntries\<rparr>"

text \<open>Resolution results for the scripted resolver.\<close>

definition unresolved_alice :: AllowFromResolution where
  "unresolved_alice = \<lparr>input = ''alice'', resolved = False, res_id = None\<rparr>"

definition resolved_bob :: AllowFromResolution where
  "resolved_bob = \<lparr>input = ''bob'', resolved = True, res_id = Some ''U123''\<rparr>"

definition resolved_carol :: AllowFromResolution where
  "resolved_carol = \<lparr>input = ''carol'', resolved = True, res_id = Some ''U234''\<rparr>"

section \<open>Properties\<close>

subsection \<open>Trimming and insertion-ordered sets\<close>

lemma trim_Nil [simp]: "trim [] = []"
  by (simp add: trim_def)

lemma dropWhile_rev_dropWhile:
  "dropWhile P (rev (dropWhile P (rev (dropWhile P s)))) = rev (dropWhile P (rev (dropWhile P s)))"
proof -
  define t where "t = dropWhile P s"
  define u where "u = rev (dropWhile P (rev t))"
  have t: "t = [] \<or> \<not> P (hd t)"
    unfolding t_def using hd_dropWhile [of P s] by auto
  have "rev t = takeWhile P (rev t) @ dropWhile P (rev t)" by simp
  then have "t = u @ rev (takeWhile P (rev t))"
    unfolding u_def by (metis rev_append rev_rev_ident)
  then have "u = [] \<or> hd u = hd t" by (metis hd_append2)
  moreover have "u \<noteq> [] \<Longrightarrow> t \<noteq> []" unfolding u_def by auto
  ultimately have "u = [] \<or> \<not> P (hd u)" using t by auto
  then have "dropWhile P u = u" by (cases u) auto
  then show ?thesis unfolding u_def t_def .
qed

lemma trim_idem [simp]: "trim (trim s) = trim s"
  by (simp add: trim_def dropWhile_rev_dropWhile)

lemma set_trim: "set (trim s) \<subseteq> set s"
  by (auto simp: trim_def dest!: set_dropWhileD)

lemma Set_add_set: "set (Set_add acc x) = insert x (set acc)"
  by (auto simp: Set_add_def)

lemma foldl_Set_add:
  "foldl Set_add acc xs = acc @ filter (\<lambda>y. y \<notin> set acc) (foldl Set_add [] xs)"
proof (induction xs arbitrary: acc)
  case Nil
  then show ?case by simp
next
  case (Cons x xs)
  have one: "foldl Set_add [x] xs = [x] @ filter (\<lambda>y. y \<notin> set [x]) (foldl Set_add [] xs)"
    by (rule Cons.IH)
  show ?case
  proof (cases "x \<in> set acc")
    case True
    then have "foldl Set_add acc (x # xs) = foldl Set_add acc xs"
      by (simp add: Set_add_def)
    also have "\<dots> = acc @ filter (\<lambda>y. y \<notin> set acc) (foldl Set_add [] xs)"
      by (rule Cons.IH)
    also have "filter (\<lambda>y. y \<notin> set acc) (foldl Set_add [] xs)
        = filter (\<lambda>y. y \<notin> set acc) (foldl Set_add [] (x # xs))"
      using True one by (auto simp: Set_add_def intro: filter_cong)
    finally show ?thesis .
  next
    case False
    then have "foldl Set_add acc (x # xs) = foldl Set_add (acc @ [x]) xs"
      by (simp add: Set_add_def)
    also have "\<dots> = (acc @ [x]) @ filter (\<lambda>y. y \<notin> set (acc @ [x])) (foldl Set_add [] xs)"
      by (rule Cons.IH)
    also have "\<dots> = acc @ filter (\<lambda>y. y \<notin> set acc) (foldl Set_add [] (x # xs))"
      using False one by (auto simp: Set_add_def intro: filter_cong)
    finally show ?thesis .
  qed
qed

lemma Set_of_Nil [simp]: "Set_of [] = []"
  by (simp add: Set_of_def)

lemma Set_of_append:
  "Set_of (xs @ ys) = Set_of xs @ filter (\<lambda>y. y \<notin> set (Set_of xs)) (Set_of ys)"
  unfolding Set_of_def foldl_append by (rule foldl_Set_add)

lemma Set_of_Cons: "Set_of (x # xs) = x # filter (\<lambda>y. y \<noteq> x) (Set_of xs)"
  using Set_of_append [of "[x]" xs] by (simp add: Set_of_def Set_add_def)

lemma set_Set_of [simp]: "set (Set_of xs) = set xs"
  by (induction xs) (auto simp: Set_of_Cons)

lemma distinct_Set_of [simp]: "distinct (Set_of xs)"
  by (induction xs) (auto simp: Set_of_Cons)

lemma Set_of_distinct: "distinct xs \<Longrightarrow> Set_of xs = xs"
  by (induction xs) (auto simp: Set_of_Cons intro: filter_True)

lemma Set_of_idem [simp]: "Set_of (Set_of xs) = Set_of xs"
  by (simp add: Set_of_distinct)


lemma Set_of_absorb: "set ys \<subseteq> set xs \<Longrightarrow> Set_of (xs @ ys) = Set_of xs"
  by (auto simp: Set_of_append filter_empty_conv)


lemma Set_of_first_occurrences: "Set_of xs = first_occurrences xs"
  by (induction xs) (simp_all add: Set_of_Cons)

lemma mergeAllowFromEntries_texts:
  "mergeAllowFromEntries current additions =
     Set_of (texts_of ((case current of None \<Rightarrow> [] | Some xs \<Rightarrow> xs) @ additions))"
  by (simp add: mergeAllowFromEntries_def texts_of_def filter_Boolean_def)

lemma texts_of_append [simp]: "texts_of (xs @ ys) = texts_of xs @ texts_of ys"
  by (simp add: texts_of_def)

lemma set_texts_of: "set (texts_of vs) = {trim (String v) |v. v \<in> set vs} - {[]}"
  by (auto simp: texts_of_def)

lemma texts_of_trimmed: "x \<in> set (texts_of vs) \<Longrightarrow> x \<noteq> [] \<and> trim x = x"
  by (auto simp: texts_of_def)

lemma texts_of_Str: "\<forall>x\<in>set xs. x \<noteq> [] \<and> trim x = x \<Longrightarrow> texts_of (map Str xs) = xs"
  by (induction xs) (auto simp: texts_of_def)

lemma merge_fixed_point:
  assumes "distinct r" and "\<forall>x\<in>set r. x \<noteq> [] \<and> trim x = x"
  shows "mergeAllowFromEntries (Some (map Str r)) [] = r"
  using assms by (simp add: mergeAllowFromEntries_texts texts_of_Str Set_of_distinct)

lemma merge_absorb:
  assumes "\<forall>a\<in>set adds. trim (String a) = [] \<or> trim (String a) \<in> set (mergeAllowFromEntries current [])"
  shows "mergeAllowFromEntries current adds = mergeAllowFromEntries current []"
proof -
  have "set (texts_of adds) \<subseteq> set (texts_of (case current of None \<Rightarrow> [] | Some xs \<Rightarrow> xs))"
    using assms by (auto simp: mergeAllowFromEntries_texts set_texts_of)
  then show ?thesis
    by (simp add: mergeAllowFromEntries_texts Set_of_absorb)
qed

text \<open>The equations that evaluate the JavaScript primitives on concrete values.\<close>

lemmas js_eval = trim_def is_ws_def show_int_def show_nat.simps digit_char_def
  filter_Boolean_def Set_of_def Set_add_def

subsection \<open>The set merger\<close>

text \<open>
  Claim C4. For every pair of collections of text or numeric entries,
  \<^verbatim>\<open>mergeAllowFromEntries\<close> returns the trimmed, non-empty text values of the existing
  entries followed by those of the additions, each value once, at the place of its first
  occurrence: the result is duplicate-free, every value in it is trimmed and non-empty,
  its values are exactly the non-empty trimmed renderings of the entries, and it starts
  with the merge of the existing entries alone. Merging is idempotent: additions whose
  values are already present (or blank) change nothing, a list merged with itself gives
  what the list alone gives, and a merge result merged with itself is returned as it is.
\<close>

theorem mergeAllowFromEntries_union:
  "mergeAllowFromEntries current additions =
     first_occurrences (texts_of ((case current of None \<Rightarrow> [] | Some xs \<Rightarrow> xs) @ additions))
   \<and> distinct (mergeAllowFromEntries current additions)
   \<and> (\<forall>x\<in>set (mergeAllowFromEntries current additions). x \<noteq> [] \<and> trim x = x)
   \<and> set (mergeAllowFromEntries current additions) =
       {trim (String v) |v. v \<in> set (case current of None \<Rightarrow> [] | Some xs \<Rightarrow> xs) \<union> set additions} - {[]}
   \<and> mergeAllowFromEntries current additions =
       mergeAllowFromEntries current [] @
       filter (\<lambda>x. x \<notin> set (mergeAllowFromEntries current [])) (mergeAllowFromEntries None additions)
   \<and> ((\<forall>a\<in>set additions. trim (String a) = [] \<or> trim (String a) \<in> set (mergeAllowFromEntries current []))
        \<longrightarrow> mergeAllowFromEntries current additions = mergeAllowFromEntries current [])
   \<and> mergeAllowFromEntries (Some additions) additions = mergeAllowFromEntries (Some additions) []
   \<and> mergeAllowFromEntries (Some (map Str (mergeAllowFromEntries current additions)))
        (map Str (mergeAllowFromEntries current additions)) = mergeAllowFromEntries current additions"
proof -
  let ?r = "mergeAllowFromEntries current additions"
  have d: "distinct ?r" by (simp add: mergeAllowFromEntries_texts)
  have t: "\<forall>x\<in>set ?r. x \<noteq> [] \<and> trim x = x"
    by (auto simp: mergeAllowFromEntries_texts dest: texts_of_trimmed)
  have fp: "mergeAllowFromEntries (Some (map Str ?r)) [] = ?r"
    using d t by (rule merge_fixed_point)
  have self: "mergeAllowFromEntries (Some (map Str ?r)) (map Str ?r) = ?r"
  proof -
    have "\<forall>a\<in>set (map Str ?r). trim (String a) = []
            \<or> trim (String a) \<in> set (mergeAllowFromEntries (Some (map Str ?r)) [])"
      using t by (simp add: fp)
    then have "mergeAllowFromEntries (Some (map Str ?r)) (map Str ?r)
                 = mergeAllowFromEntries (Some (map Str ?r)) []"
      by (rule merge_absorb)
    then show ?thesis by (simp add: fp)
  qed
  have raw_self: "mergeAllowFromEntries (Some additions) additions = mergeAllowFromEntries (Some additions) []"
    by (rule merge_absorb) (auto simp: mergeAllowFromEntries_texts set_texts_of)
  have first: "?r = first_occurrences (texts_of ((case current of None \<Rightarrow> [] | Some xs \<Rightarrow> xs) @ additions))"
    by (simp only: mergeAllowFromEntries_texts Set_of_first_occurrences)
  have s: "set ?r = {trim (String v) |v. v \<in> set (case current of None \<Rightarrow> [] | Some xs \<Rightarrow> xs) \<union> set additions} - {[]}"
    unfolding mergeAllowFromEntries_texts set_Set_of set_texts_of by auto
  have pre: "?r = mergeAllowFromEntries current [] @
       filter (\<lambda>x. x \<notin> set (mergeAllowFromEntries current [])) (mergeAllowFromEntries None additions)"
    by (simp add: mergeAllowFromEntries_texts Set_of_append)
  have ab: "(\<forall>a\<in>set additions. trim (String a) = [] \<or> trim (String a) \<in> set (mergeAllowFromEntries current []))
        \<longrightarrow> ?r = mergeAllowFromEntries current []"
    using merge_absorb by blast
  from first d t s pre ab raw_self self show ?thesis by blast
qed

theorem mergeAllowFromEntries_union_witness:
  "mergeAllowFromEntries (Some [Str '' a'', Num 12, Str ''a'']) [] = [''a'', ''12'']
   \<and> trim (String (Str ''12 '')) = ''12''
   \<and> trim (String (Str ''   '')) = []
   \<and> trim (String (Num 12)) = ''12''
   \<and> mergeAllowFromEntries (Some [Str '' a'', Num 12, Str ''a'']) [Str ''12 '', Str ''   '', Num 12]
       = [''a'', ''12'']
   \<and> distinct (mergeAllowFromEntries (Some [Str '' a'', Num 12, Str ''a'']) [Str ''12 '', Str ''   '', Num 12])"
proof -
  have base: "mergeAllowFromEntries (Some [Str '' a'', Num 12, Str ''a'']) [] = [''a'', ''12'']"
    by (simp add: js_eval mergeAllowFromEntries_def)
  have vals: "trim (String (Str ''12 '')) = ''12''" "trim (String (Str ''   '')) = []"
    "trim (String (Num 12)) = ''12''"
    by (simp_all add: js_eval)
  have hyp: "\<forall>a\<in>set [Str ''12 '', Str ''   '', Num 12].
         trim (String a) = [] \<or> trim (String a) \<in> set (mergeAllowFromEntries (Some [Str '' a'', Num 12, Str ''a'']) [])"
    unfolding base using vals by simp
  note T = mergeAllowFromEntries_union
    [of "Some [Str '' a'', Num 12, Str ''a'']" "[Str ''12 '', Str ''   '', Num 12]"]
  from T hyp have eq: "mergeAllowFromEntries (Some [Str '' a'', Num 12, Str ''a'']) [Str ''12 '', Str ''   '', Num 12]
     = mergeAllowFromEntries (Some [Str '' a'', Num 12, Str ''a'']) []"
    by (elim conjE) (erule mp)
  from T have d: "distinct (mergeAllowFromEntries (Some [Str '' a'', Num 12, Str ''a'']) [Str ''12 '', Str ''   '', Num 12])"
    by (elim conjE)
  from eq base vals d show ?thesis by simp
qed

subsection \<open>The entry parser\<close>

lemma split_runs_no_sep:
  "\<forall>c\<in>set s. \<not> sep c \<Longrightarrow> split_runs sep s = [s]"
  by (subst split_runs.simps) (simp add: dropWhile_eq_Nil_conv takeWhile_eq_all_conv)

lemma split_runs_some_sep:
  "\<exists>c\<in>set s. sep c \<Longrightarrow>
   split_runs sep s =
     takeWhile (\<lambda>c. \<not> sep c) s # split_runs sep (dropWhile sep (dropWhile (\<lambda>c. \<not> sep c) s))"
  by (subst split_runs.simps) (auto simp: Let_def dropWhile_eq_Nil_conv)

lemma split_runs_Nil [simp]: "split_runs sep [] = [[]]"
  by (simp add: split_runs_no_sep)

text \<open>The non-empty segments, which are all that survives \<^verbatim>\<open>.filter(Boolean)\<close>.\<close>

lemma filter_Boolean_map_trim:
  "filter_Boolean (map trim xs) = filter_Boolean (map trim (filter (\<lambda>s. s \<noteq> []) xs))"
  by (induction xs) (auto simp: filter_Boolean_def)

lemma segments_dropWhile:
  "filter (\<lambda>s. s \<noteq> []) (split_runs sep (dropWhile sep s)) = filter (\<lambda>s. s \<noteq> []) (split_runs sep s)"
proof (cases s)
  case Nil
  then show ?thesis by simp
next
  case (Cons c cs)
  show ?thesis
  proof (cases "sep c")
    case True
    then show ?thesis
    proof -
      have "\<exists>y\<in>set (c # cs). sep y" using True by auto
      from split_runs_some_sep [OF this] True show ?thesis by (simp add: Cons)
    qed
  next
    case False
    then show ?thesis by (simp add: Cons)
  qed
qed

lemma segments_sep_Cons:
  "sep c \<Longrightarrow> filter (\<lambda>s. s \<noteq> []) (split_runs sep (c # s)) = filter (\<lambda>s. s \<noteq> []) (split_runs sep s)"
  using segments_dropWhile [of sep "c # s"] segments_dropWhile [of sep s] by simp

lemma segments_append:
  "sep c \<Longrightarrow>
   filter (\<lambda>s. s \<noteq> []) (split_runs sep (a @ c # b)) =
   filter (\<lambda>s. s \<noteq> []) (split_runs sep a) @ filter (\<lambda>s. s \<noteq> []) (split_runs sep b)"
proof (induction sep a rule: split_runs.induct)
  case (1 sep a)
  let ?seg = "takeWhile (\<lambda>c. \<not> sep c) a"
  let ?rest = "dropWhile (\<lambda>c. \<not> sep c) a"
  have ex: "\<exists>y\<in>set (a @ c # b). sep y" using \<open>sep c\<close> by auto
  show ?case
  proof (cases "?rest = []")
    case True
    then have a: "\<forall>x\<in>set a. \<not> sep x" by (simp add: dropWhile_eq_Nil_conv)
    have tw: "takeWhile (\<lambda>c. \<not> sep c) (a @ c # b) = a"
      using a \<open>sep c\<close> by (subst takeWhile_append2) auto
    have dw: "dropWhile (\<lambda>c. \<not> sep c) (a @ c # b) = c # b"
      using a \<open>sep c\<close> by (subst dropWhile_append2) auto
    have "split_runs sep (a @ c # b) = a # split_runs sep (dropWhile sep (c # b))"
      using split_runs_some_sep [OF ex] by (simp only: tw dw)
    then have "filter (\<lambda>s. s \<noteq> []) (split_runs sep (a @ c # b))
         = filter (\<lambda>s. s \<noteq> []) ([a] @ split_runs sep (dropWhile sep (c # b)))"
      by (simp only: append_Cons append_Nil)
    also have "\<dots> = filter (\<lambda>s. s \<noteq> []) [a]
         @ filter (\<lambda>s. s \<noteq> []) (split_runs sep (dropWhile sep (c # b)))"
      by (rule filter_append)
    also have "filter (\<lambda>s. s \<noteq> []) (split_runs sep (dropWhile sep (c # b)))
         = filter (\<lambda>s. s \<noteq> []) (split_runs sep (c # b))"
      by (rule segments_dropWhile)
    also have "filter (\<lambda>s. s \<noteq> []) (split_runs sep (c # b)) = filter (\<lambda>s. s \<noteq> []) (split_runs sep b)"
      using \<open>sep c\<close> by (rule segments_sep_Cons)
    also have "[a] = split_runs sep a"
      using a by (simp only: split_runs_no_sep)
    finally show ?thesis .
  next
    case False
    define a' where "a' = dropWhile sep ?rest"
    from False obtain x where x: "x \<in> set a" "sep x"
      by (auto simp: dropWhile_eq_Nil_conv)
    then have exa: "\<exists>y\<in>set a. sep y" by auto
    have sa: "split_runs sep a = ?seg # split_runs sep a'"
      unfolding a'_def using exa by (rule split_runs_some_sep)
    have tw: "takeWhile (\<lambda>c. \<not> sep c) (a @ c # b) = ?seg"
      using x by (intro takeWhile_append1 [of x]) auto
    have dw: "dropWhile (\<lambda>c. \<not> sep c) (a @ c # b) = ?rest @ c # b"
      using x by (intro dropWhile_append1 [of x]) auto
    have sab: "split_runs sep (a @ c # b) = ?seg # split_runs sep (dropWhile sep (?rest @ c # b))"
      using split_runs_some_sep [OF ex] by (simp only: tw dw)
    have segs: "filter (\<lambda>s. s \<noteq> []) (split_runs sep (dropWhile sep (?rest @ c # b)))
        = filter (\<lambda>s. s \<noteq> []) (split_runs sep a') @ filter (\<lambda>s. s \<noteq> []) (split_runs sep b)"
    proof (cases "a' = []")
      case True
      then have "\<forall>y\<in>set ?rest. sep y"
        unfolding a'_def by (simp only: dropWhile_eq_Nil_conv)
      then have "dropWhile sep (?rest @ c # b) = dropWhile sep (c # b)"
        by (intro dropWhile_append2) blast
      then have "filter (\<lambda>s. s \<noteq> []) (split_runs sep (dropWhile sep (?rest @ c # b)))
          = filter (\<lambda>s. s \<noteq> []) (split_runs sep (c # b))"
        by (simp only: segments_dropWhile)
      also have "\<dots> = filter (\<lambda>s. s \<noteq> []) (split_runs sep b)"
        using \<open>sep c\<close> by (rule segments_sep_Cons)
      finally show ?thesis using True by simp
    next
      case ne: False
      then have "dropWhile sep ?rest \<noteq> []"
        unfolding a'_def .
      then have "\<not> (\<forall>y\<in>set ?rest. sep y)"
        unfolding dropWhile_eq_Nil_conv .
      then obtain y where y: "y \<in> set ?rest" "\<not> sep y"
        by blast
      then have "dropWhile sep (?rest @ c # b) = a' @ c # b"
        unfolding a'_def by (intro dropWhile_append1 [of y]) auto
      moreover have "filter (\<lambda>s. s \<noteq> []) (split_runs sep (a' @ c # b)) =
          filter (\<lambda>s. s \<noteq> []) (split_runs sep a') @ filter (\<lambda>s. s \<noteq> []) (split_runs sep b)"
        unfolding a'_def by (rule "1.IH" [OF refl refl False \<open>sep c\<close>])
      ultimately show ?thesis by simp
    qed
    show ?thesis
      unfolding sa sab using segs by simp
  qed
qed

lemma split_runs_sep_free: "seg \<in> set (split_runs sep s) \<Longrightarrow> \<forall>c\<in>set seg. \<not> sep c"
proof (induction sep s rule: split_runs.induct)
  case (1 sep s)
  show ?case
  proof (cases "\<exists>c\<in>set s. sep c")
    case False
    with "1.prems" have "seg = s" by (simp add: split_runs_no_sep)
    with False show ?thesis by simp
  next
    case True
    then have ne: "dropWhile (\<lambda>c. \<not> sep c) s \<noteq> []"
      by (simp add: dropWhile_eq_Nil_conv)
    from "1.prems" have "seg = takeWhile (\<lambda>c. \<not> sep c) s
        \<or> seg \<in> set (split_runs sep (dropWhile sep (dropWhile (\<lambda>c. \<not> sep c) s)))"
      unfolding split_runs_some_sep [OF True] by simp
    then show ?thesis
    proof
      assume "seg = takeWhile (\<lambda>c. \<not> sep c) s"
      then show ?thesis using set_takeWhileD [of _ "\<lambda>c. \<not> sep c" s] by blast
    next
      assume "seg \<in> set (split_runs sep (dropWhile sep (dropWhile (\<lambda>c. \<not> sep c) s)))"
      then show ?thesis by (rule "1.IH" [OF refl refl ne])
    qed
  qed
qed

lemma splitOnboardingEntries_segments:
  "splitOnboardingEntries raw =
     filter_Boolean (map trim (filter (\<lambda>s. s \<noteq> []) (split_runs is_sep raw)))"
  unfolding splitOnboardingEntries_def by (rule filter_Boolean_map_trim)

lemma splitOnboardingEntries_Nil: "splitOnboardingEntries [] = []"
  by (simp add: splitOnboardingEntries_def filter_Boolean_def)

lemma splitOnboardingEntries_no_sep:
  assumes "\<forall>c\<in>set raw. \<not> is_sep c"
  shows "splitOnboardingEntries raw = (if trim raw = [] then [] else [trim raw])"
  unfolding splitOnboardingEntries_def split_runs_no_sep [OF assms]
  by (simp add: filter_Boolean_def)

lemma splitOnboardingEntries_sep:
  assumes "is_sep c"
  shows "splitOnboardingEntries (a @ c # b) = splitOnboardingEntries a @ splitOnboardingEntries b"
  unfolding splitOnboardingEntries_segments segments_append [of is_sep c a b, OF assms]
  by (simp add: filter_Boolean_def)

lemma splitOnboardingEntries_token:
  assumes "t \<in> set (splitOnboardingEntries raw)"
  shows "t \<noteq> [] \<and> trim t = t \<and> (\<forall>c\<in>set t. \<not> is_sep c)"
proof -
  from assms obtain seg where seg: "seg \<in> set (split_runs is_sep raw)" and t: "t = trim seg" "t \<noteq> []"
    unfolding splitOnboardingEntries_def filter_Boolean_def by auto
  from seg have "\<forall>c\<in>set seg. \<not> is_sep c" by (rule split_runs_sep_free)
  moreover have "set t \<subseteq> set seg" unfolding t by (rule set_trim)
  ultimately have "\<forall>c\<in>set t. \<not> is_sep c" by blast
  with t show ?thesis by simp
qed

lemma splitOnboardingEntries_example:
  "splitOnboardingEntries '' a, b \<newline>c;  ;\<newline>'' = [''a'', ''b'', ''c'']"
  by (simp add: splitOnboardingEntries_def split_runs.simps is_sep_def js_eval)

text \<open>
  Claim C9. \<^verbatim>\<open>splitOnboardingEntries\<close> is a total function (its only recursion, the
  split, terminates on every string). The empty string yields no token, and
  \<^verbatim>\<open>" a, b \nc;  ;\n"\<close> yields a, b, c. Every token is non-empty, trimmed and free of
  newline, comma and semicolon. A text without separator gives its trimmed self, or
  nothing when that is empty; and the tokens of a text around a separator are the
  tokens before it followed by the tokens after it, so that runs of separators and
  leading or trailing separators contribute nothing.
\<close>

theorem splitOnboardingEntries_tokens:
  "splitOnboardingEntries [] = []
   \<and> splitOnboardingEntries '' a, b \<newline>c;  ;\<newline>'' = [''a'', ''b'', ''c'']
   \<and> (\<forall>t\<in>set (splitOnboardingEntries raw). t \<noteq> [] \<and> trim t = t \<and> (\<forall>c\<in>set t. \<not> is_sep c))
   \<and> ((\<forall>c\<in>set raw. \<not> is_sep c) \<longrightarrow>
         splitOnboardingEntries raw = (if trim raw = [] then [] else [trim raw]))
   \<and> (is_sep c \<longrightarrow>
         splitOnboardingEntries (a @ c # b) = splitOnboardingEntries a @ splitOnboardingEntries b)"
  using splitOnboardingEntries_Nil splitOnboardingEntries_example
    splitOnboardingEntries_token [of _ raw] splitOnboardingEntries_no_sep [of raw]
    splitOnboardingEntries_sep [of c a b]
  by blast

theorem splitOnboardingEntries_tokens_witness:
  "is_sep CHR '';''
   \<and> list_all (\<lambda>c. \<not> is_sep c) '' a ''
   \<and> splitOnboardingEntries '' a '' = [''a'']
   \<and> splitOnboardingEntries '',,b'' = [''b'']
   \<and> splitOnboardingEntries ('' a '' @ CHR '';'' # '',,b'') = [''a'', ''b'']
   \<and> trim ''a'' = ''a''"
proof -
  have sep: "is_sep CHR '';''" by (simp add: is_sep_def)
  have free: "list_all (\<lambda>c. \<not> is_sep c) '' a ''" by (simp add: is_sep_def)
  then have free': "\<forall>c\<in>set '' a ''. \<not> is_sep c" by (simp only: list_all_iff)
  have t: "trim '' a '' = ''a''" by (simp add: js_eval)
  note T = splitOnboardingEntries_tokens [where raw = "'' a ''" and c = "CHR '';''"
      and a = "'' a ''" and b = "'',,b''"]
  from T free' have "splitOnboardingEntries '' a '' = (if trim '' a '' = [] then [] else [trim '' a ''])"
    by (elim conjE) (erule mp)
  then have a: "splitOnboardingEntries '' a '' = [''a'']" unfolding t by simp
  from T have "\<forall>t\<in>set (splitOnboardingEntries '' a ''). t \<noteq> [] \<and> trim t = t \<and> (\<forall>c\<in>set t. \<not> is_sep c)"
    by (elim conjE)
  then have tr: "trim ''a'' = ''a''" unfolding a by simp
  have b: "splitOnboardingEntries '',,b'' = [''b'']"
    by (simp add: splitOnboardingEntries_def split_runs.simps is_sep_def js_eval)
  from T sep
  have "splitOnboardingEntries ('' a '' @ CHR '';'' # '',,b'')
      = splitOnboardingEntries '' a '' @ splitOnboardingEntries '',,b''"
    by (elim conjE) (erule mp)
  with sep free a b tr show ?thesis by (simp only: append_Cons append_Nil simp_thms)
qed

subsection \<open>The entry normalizer\<close>

lemma normalizeAllowFromEntries_None:
  "normalizeAllowFromEntries entries None = Set_of (texts_of entries)"
proof -
  have "filter (\<lambda>s. s \<noteq> []) (map (\<lambda>entry. if entry = ''*'' then ''*'' else entry) (texts_of entries))
      = texts_of entries"
    by (induction entries) (simp_all add: texts_of_def)
  then show ?thesis
    by (simp add: normalizeAllowFromEntries_def filter_Boolean_def texts_of_def cong: if_cong)
qed

lemma filter_map_normalized:
  "filter (\<lambda>s. s \<noteq> [])
     (map (\<lambda>entry. if entry = ''*'' then ''*''
                    else (case f entry of Some v \<Rightarrow> trim v | None \<Rightarrow> [])) xs)
   = concat (map (normalized_entry f) xs)"
  by (induction xs) (simp_all add: normalized_entry_def split: option.splits)

lemma normalizeAllowFromEntries_Some:
  "normalizeAllowFromEntries entries (Some f) =
     Set_of (concat (map (normalized_entry f) (texts_of entries)))"
  using filter_map_normalized [of f "texts_of entries"]
  by (simp add: normalizeAllowFromEntries_def filter_Boolean_def texts_of_def cong: if_cong)

lemma normalized_entry_cong:
  "\<forall>e. e \<noteq> ''*'' \<longrightarrow> f e = g e \<Longrightarrow> normalized_entry f = normalized_entry g"
  by (rule ext) (simp add: normalized_entry_def)

lemma wildcard_kept:
  assumes "''*'' \<in> set (texts_of entries)"
  shows "''*'' \<in> set (normalizeAllowFromEntries entries nf)"
proof (cases nf)
  case None
  with assms show ?thesis by (simp add: normalizeAllowFromEntries_None)
next
  case (Some f)
  have "''*'' \<in> set (normalized_entry f ''*'')" by (simp add: normalized_entry_def)
  with assms show ?thesis
    unfolding Some normalizeAllowFromEntries_Some set_Set_of set_concat by (simp only: set_map) blast
qed

lemma set_normalized_entry:
  "x \<in> set (normalized_entry f e) \<longleftrightarrow>
     (e = ''*'' \<and> x = ''*'') \<or> (e \<noteq> ''*'' \<and> (\<exists>v. f e = Some v \<and> trim v \<noteq> [] \<and> x = trim v))"
proof (cases "e = ''*''")
  case True
  then show ?thesis by (simp add: normalized_entry_def)
next
  case False
  then show ?thesis by (cases "f e") (simp_all add: normalized_entry_def)
qed

lemma set_normalizeAllowFromEntries:
  "set (normalizeAllowFromEntries entries (Some f)) =
     (set (texts_of entries) \<inter> {''*''}) \<union>
     {trim v |e v. e \<in> set (texts_of entries) \<and> e \<noteq> ''*'' \<and> f e = Some v \<and> trim v \<noteq> []}"
  (is "?L = ?R")
proof (rule set_eqI)
  fix x
  have "x \<in> ?L \<longleftrightarrow> (\<exists>e\<in>set (texts_of entries). x \<in> set (normalized_entry f e))"
    unfolding normalizeAllowFromEntries_Some set_Set_of by simp
  also have "\<dots> \<longleftrightarrow> x \<in> ?R"
    unfolding set_normalized_entry by blast
  finally show "x \<in> ?L \<longleftrightarrow> x \<in> ?R" .
qed

lemma normalize_example:
  "normalizeAllowFromEntries [Str '' +15555550123 '', Str ''*'', Str ''+15555550123'', Str ''bad'']
      (Some plus_one_only) = [''+15555550123'', ''*'']"
  by (simp add: normalizeAllowFromEntries_def plus_one_only_def js_eval)

text \<open>
  Claim C8. The output of \<^verbatim>\<open>normalizeAllowFromEntries\<close> is duplicate-free. A wildcard
  among the trimmed entries is in the output whatever the normalizer (it is never
  dropped), and two normalizers that differ only on the wildcard give the same output
  (the normalizer is never applied to it). With a normalizer, every trimmed entry
  contributes, in order, the wildcard itself or the trimmed result of the normalizer, and
  nothing when that result is absent or empty; without one, the trimmed entries are
  returned, each once.
\<close>

theorem normalizeAllowFromEntries_wildcard:
  "distinct (normalizeAllowFromEntries entries nf)
   \<and> (''*'' \<in> set (texts_of entries) \<longrightarrow> ''*'' \<in> set (normalizeAllowFromEntries entries nf))
   \<and> ((\<forall>e. e \<noteq> ''*'' \<longrightarrow> f e = g e) \<longrightarrow>
         normalizeAllowFromEntries entries (Some f) = normalizeAllowFromEntries entries (Some g))
   \<and> normalizeAllowFromEntries entries (Some f) =
         first_occurrences (concat (map (normalized_entry f) (texts_of entries)))
   \<and> set (normalizeAllowFromEntries entries (Some f)) =
         (set (texts_of entries) \<inter> {''*''}) \<union>
         {trim v |e v. e \<in> set (texts_of entries) \<and> e \<noteq> ''*'' \<and> f e = Some v \<and> trim v \<noteq> []}
   \<and> normalizeAllowFromEntries entries None = first_occurrences (texts_of entries)"
proof -
  have d: "distinct (normalizeAllowFromEntries entries nf)"
    by (cases nf) (simp_all add: normalizeAllowFromEntries_None normalizeAllowFromEntries_Some)
  have c: "(\<forall>e. e \<noteq> ''*'' \<longrightarrow> f e = g e) \<longrightarrow>
         normalizeAllowFromEntries entries (Some f) = normalizeAllowFromEntries entries (Some g)"
    by (auto simp only: normalizeAllowFromEntries_Some dest!: normalized_entry_cong)
  have o: "normalizeAllowFromEntries entries (Some f) =
         first_occurrences (concat (map (normalized_entry f) (texts_of entries)))"
    by (simp only: normalizeAllowFromEntries_Some Set_of_first_occurrences)
  have n: "normalizeAllowFromEntries entries None = first_occurrences (texts_of entries)"
    by (simp only: normalizeAllowFromEntries_None Set_of_first_occurrences)
  from d c o n wildcard_kept [of entries nf] set_normalizeAllowFromEntries [of entries f]
  show ?thesis by blast
qed

theorem normalizeAllowFromEntries_wildcard_witness:
  "''*'' \<in> set (texts_of [Str '' +15555550123 '', Str ''*'', Str ''+15555550123'', Str ''bad''])
   \<and> wildcard_rewriter ''*'' = Some ''everyone''
   \<and> normalizeAllowFromEntries [Str '' +15555550123 '', Str ''*'', Str ''+15555550123'', Str ''bad'']
        (Some wildcard_rewriter) = [''+15555550123'', ''*'']"
proof -
  let ?es = "[Str '' +15555550123 '', Str ''*'', Str ''+15555550123'', Str ''bad'']"
  have t: "''*'' \<in> set (texts_of ?es)"
    by (simp add: texts_of_def js_eval)
  have w: "wildcard_rewriter ''*'' = Some ''everyone''"
    by (simp add: wildcard_rewriter_def)
  have agree: "\<forall>e. e \<noteq> ''*'' \<longrightarrow> wildcard_rewriter e = plus_one_only e"
    by (simp add: wildcard_rewriter_def)
  from normalizeAllowFromEntries_wildcard [of ?es "Some wildcard_rewriter" wildcard_rewriter plus_one_only]
    agree
  have "normalizeAllowFromEntries ?es (Some wildcard_rewriter)
      = normalizeAllowFromEntries ?es (Some plus_one_only)"
    by (elim conjE) (erule mp)
  with normalize_example t w show ?thesis by (simp only: simp_thms)
qed

subsection \<open>Account resolution\<close>







subsection \<open>The configuration patchers\<close>

lemma channels_of_update [simp]: "channels_of (cfg\<lparr>channels := Some m\<rparr>) = m"
  by (simp add: channels_of_def)

lemma setAccount_default:
  "setAccountAllowFromForChannel D cfg ch D al =
     cfg\<lparr>channels := Some ((channels_of cfg)(channel_key ch \<mapsto>
       (channel_or_empty cfg ch)\<lparr>allowFrom := Some (map Str al)\<rparr>))\<rparr>"
  by (simp add: setAccountAllowFromForChannel_def channel_or_empty_def)

lemma setAccount_nested:
  "a \<noteq> D \<Longrightarrow> setAccountAllowFromForChannel D cfg ch a al =
     cfg\<lparr>channels := Some ((channels_of cfg)(channel_key ch \<mapsto>
       (channel_or_empty cfg ch)\<lparr>accounts := Some ((accounts_of cfg ch)(a \<mapsto>
          (account_or_empty cfg ch a)\<lparr>acc_allowFrom := Some (map Str al)\<rparr>))\<rparr>))\<rparr>"
  by (simp add: setAccountAllowFromForChannel_def channel_or_empty_def account_or_empty_def)

lemma accounts_of_channel:
  "channel_of cfg ch = Some c \<Longrightarrow> accounts_of cfg ch = (case accounts c of None \<Rightarrow> Map.empty | Some as \<Rightarrow> as)"
  by (simp add: accounts_of_def)

lemma accounts_channel_or_empty:
  "(case accounts (channel_or_empty cfg ch) of None \<Rightarrow> Map.empty | Some as \<Rightarrow> as) = accounts_of cfg ch"
  by (simp add: accounts_of_def channel_or_empty_def empty_channel_def split: option.splits)

text \<open>
  Claim C6. \<^verbatim>\<open>setAccountAllowFromForChannel\<close> returns a snapshot whose fields outside
  \<^verbatim>\<open>channels\<close> and whose other channels are those of the input. With the default-account
  sentinel, the channel's object is the old one with only \<^verbatim>\<open>allowFrom\<close> replaced, so its
  per-account map is untouched. With any other account identifier, the channel's object
  is the old one with only \<^verbatim>\<open>accounts\<close> replaced; there the targeted account is the old
  one with only its \<^verbatim>\<open>allowFrom\<close> replaced and every other account is as before. The
  function builds new objects and assigns to none: the input snapshot is a value that the
  call cannot change.
\<close>

theorem setAccountAllowFromForChannel_frame:
  "cfg_other (setAccountAllowFromForChannel D cfg ch a al) = cfg_other cfg
   \<and> (\<forall>k. k \<noteq> channel_key ch \<longrightarrow>
         channels_of (setAccountAllowFromForChannel D cfg ch a al) k = channels_of cfg k)
   \<and> (a = D \<longrightarrow>
         channel_of (setAccountAllowFromForChannel D cfg ch a al) ch
           = Some ((channel_or_empty cfg ch)\<lparr>allowFrom := Some (map Str al)\<rparr>)
         \<and> accounts_of (setAccountAllowFromForChannel D cfg ch a al) ch = accounts_of cfg ch)
   \<and> (a \<noteq> D \<longrightarrow>
         channel_of (setAccountAllowFromForChannel D cfg ch a al) ch
           = Some ((channel_or_empty cfg ch)\<lparr>accounts := Some ((accounts_of cfg ch)(a \<mapsto>
                (account_or_empty cfg ch a)\<lparr>acc_allowFrom := Some (map Str al)\<rparr>))\<rparr>)
         \<and> accounts_of (setAccountAllowFromForChannel D cfg ch a al) ch a
           = Some ((account_or_empty cfg ch a)\<lparr>acc_allowFrom := Some (map Str al)\<rparr>)
         \<and> (\<forall>k. k \<noteq> a \<longrightarrow>
               accounts_of (setAccountAllowFromForChannel D cfg ch a al) ch k = accounts_of cfg ch k))"
proof (intro conjI impI allI)
  show "cfg_other (setAccountAllowFromForChannel D cfg ch a al) = cfg_other cfg"
    by (simp add: setAccountAllowFromForChannel_def)
next
  fix k assume "k \<noteq> channel_key ch"
  then show "channels_of (setAccountAllowFromForChannel D cfg ch a al) k = channels_of cfg k"
    by (simp add: setAccountAllowFromForChannel_def)
next
  assume "a = D"
  then show "channel_of (setAccountAllowFromForChannel D cfg ch a al) ch
           = Some ((channel_or_empty cfg ch)\<lparr>allowFrom := Some (map Str al)\<rparr>)"
    by (simp add: setAccount_default channel_of_def)
  then show "accounts_of (setAccountAllowFromForChannel D cfg ch a al) ch = accounts_of cfg ch"
    by (simp add: accounts_of_channel accounts_channel_or_empty)
next
  assume "a \<noteq> D"
  then show c: "channel_of (setAccountAllowFromForChannel D cfg ch a al) ch
           = Some ((channel_or_empty cfg ch)\<lparr>accounts := Some ((accounts_of cfg ch)(a \<mapsto>
                (account_or_empty cfg ch a)\<lparr>acc_allowFrom := Some (map Str al)\<rparr>))\<rparr>)"
    by (simp add: setAccount_nested channel_of_def)
  show "accounts_of (setAccountAllowFromForChannel D cfg ch a al) ch a
           = Some ((account_or_empty cfg ch a)\<lparr>acc_allowFrom := Some (map Str al)\<rparr>)"
    by (simp add: accounts_of_channel [OF c])
  fix k assume "k \<noteq> a"
  then show "accounts_of (setAccountAllowFromForChannel D cfg ch a al) ch k = accounts_of cfg ch k"
    by (simp add: accounts_of_channel [OF c])
qed

theorem setAccountAllowFromForChannel_frame_witness:
  "''alt'' \<noteq> ''default''
   \<and> account_or_empty cfg_signal_alt signal ''alt''
       = \<lparr>acc_allowFrom = Some [Str ''alt-old''],
          acc_other = [''enabled'' \<mapsto> ''true'', ''account'' \<mapsto> ''+15555550123'']\<rparr>
   \<and> accounts_of (setAccountAllowFromForChannel ''default'' cfg_signal_alt signal ''alt'' [''alt-new''])
         signal ''alt''
       = Some \<lparr>acc_allowFrom = Some [Str ''alt-new''],
               acc_other = [''enabled'' \<mapsto> ''true'', ''account'' \<mapsto> ''+15555550123'']\<rparr>
   \<and> allowFrom (the (channel_of
         (setAccountAllowFromForChannel ''default'' cfg_signal_alt signal ''alt'' [''alt-new'']) signal))
       = Some [Str ''default-old'']
   \<and> allowFrom (the (channel_of
         (setAccountAllowFromForChannel ''default'' cfg_signal_alt signal ''default'' [''new-default'']) signal))
       = Some [Str ''new-default'']
   \<and> accounts_of (setAccountAllowFromForChannel ''default'' cfg_signal_alt signal ''default'' [''new-default''])
         signal ''alt''
       = Some \<lparr>acc_allowFrom = Some [Str ''alt-old''],
               acc_other = [''enabled'' \<mapsto> ''true'', ''account'' \<mapsto> ''+15555550123'']\<rparr>"
proof -
  have ne: "''alt'' \<noteq> ''default''" by simp
  have c0: "channel_or_empty cfg_signal_alt signal
       = \<lparr>allowFrom = Some [Str ''default-old''], dmPolicy = None,
          accounts = Some [''alt'' \<mapsto>
            \<lparr>acc_allowFrom = Some [Str ''alt-old''],
             acc_other = [''enabled'' \<mapsto> ''true'', ''account'' \<mapsto> ''+15555550123'']\<rparr>],
          chan_other = [''enabled'' \<mapsto> ''true'']\<rparr>"
    by (simp add: channel_or_empty_def channel_of_def channels_of_def cfg_signal_alt_def)
  have as: "accounts_of cfg_signal_alt signal ''alt''
       = Some \<lparr>acc_allowFrom = Some [Str ''alt-old''],
               acc_other = [''enabled'' \<mapsto> ''true'', ''account'' \<mapsto> ''+15555550123'']\<rparr>"
    by (simp add: accounts_of_def channel_of_def channels_of_def cfg_signal_alt_def)
  then have a0: "account_or_empty cfg_signal_alt signal ''alt''
       = \<lparr>acc_allowFrom = Some [Str ''alt-old''],
          acc_other = [''enabled'' \<mapsto> ''true'', ''account'' \<mapsto> ''+15555550123'']\<rparr>"
    by (simp add: account_or_empty_def)
  note N = setAccountAllowFromForChannel_frame
    [where D = "''default''" and cfg = cfg_signal_alt and ch = signal and a = "''alt''"
       and al = "[''alt-new'']"]
  from N ne
  have 1: "accounts_of (setAccountAllowFromForChannel ''default'' cfg_signal_alt signal ''alt'' [''alt-new''])
         signal ''alt''
      = Some ((account_or_empty cfg_signal_alt signal ''alt'')\<lparr>acc_allowFrom := Some (map Str [''alt-new''])\<rparr>)"
    by blast
  from N ne
  have 2: "channel_of (setAccountAllowFromForChannel ''default'' cfg_signal_alt signal ''alt'' [''alt-new'']) signal
      = Some ((channel_or_empty cfg_signal_alt signal)\<lparr>accounts := Some ((accounts_of cfg_signal_alt signal)(''alt'' \<mapsto>
                (account_or_empty cfg_signal_alt signal ''alt'')\<lparr>acc_allowFrom := Some (map Str [''alt-new''])\<rparr>))\<rparr>)"
    by blast
  note D = setAccountAllowFromForChannel_frame
    [where D = "''default''" and cfg = cfg_signal_alt and ch = signal and a = "''default''"
       and al = "[''new-default'']"]
  from D
  have 3: "channel_of (setAccountAllowFromForChannel ''default'' cfg_signal_alt signal ''default'' [''new-default'']) signal
      = Some ((channel_or_empty cfg_signal_alt signal)\<lparr>allowFrom := Some (map Str [''new-default''])\<rparr>)"
    by blast
  from D
  have 4: "accounts_of (setAccountAllowFromForChannel ''default'' cfg_signal_alt signal ''default'' [''new-default'']) signal
      = accounts_of cfg_signal_alt signal"
    by blast
  from ne a0 1 show ?thesis unfolding 2 3 4 as c0 by simp
qed

lemma addWildcardAllowFrom_texts:
  "addWildcardAllowFrom xs =
     (if ''*'' \<in> set (texts_of (case xs of None \<Rightarrow> [] | Some l \<Rightarrow> l))
      then texts_of (case xs of None \<Rightarrow> [] | Some l \<Rightarrow> l)
      else texts_of (case xs of None \<Rightarrow> [] | Some l \<Rightarrow> l) @ [''*''])"
  by (simp add: addWildcardAllowFrom_def texts_of_def filter_Boolean_def Let_def)

lemma addWildcardAllowFrom_distinct:
  "distinct (addWildcardAllowFrom xs) \<longleftrightarrow> distinct (texts_of (case xs of None \<Rightarrow> [] | Some l \<Rightarrow> l))"
  by (simp add: addWildcardAllowFrom_texts)

lemma addWildcardAllowFrom_trimmed:
  "x \<in> set (addWildcardAllowFrom xs) \<Longrightarrow> x \<noteq> [] \<and> trim x = x"
proof -
  assume "x \<in> set (addWildcardAllowFrom xs)"
  then have "x \<in> set (texts_of (case xs of None \<Rightarrow> [] | Some l \<Rightarrow> l)) \<or> x = ''*''"
    unfolding addWildcardAllowFrom_texts by (cases "''*'' \<in> set (texts_of (case xs of None \<Rightarrow> [] | Some l \<Rightarrow> l))") auto
  moreover have "trim ''*'' = ''*''" by (simp add: js_eval)
  ultimately show ?thesis using texts_of_trimmed by auto
qed

lemma addWildcardAllowFrom_merge:
  assumes "distinct (texts_of (case xs of None \<Rightarrow> [] | Some l \<Rightarrow> l))"
  shows "addWildcardAllowFrom xs = mergeAllowFromEntries xs [Str ''*'']"
proof -
  have "texts_of [Str ''*''] = [''*'']" by (simp add: texts_of_def js_eval)
  moreover have "Set_of [''*''] = [''*'']" by (simp add: Set_of_distinct)
  ultimately show ?thesis
    using assms
    by (simp add: addWildcardAllowFrom_texts mergeAllowFromEntries_texts Set_of_append
        Set_of_distinct)
qed

lemma allowFrom_channel_or_empty:
  "(case channel_of cfg ch of None \<Rightarrow> None | Some c \<Rightarrow> allowFrom c) = allowFrom (channel_or_empty cfg ch)"
  by (simp add: channel_or_empty_def empty_channel_def split: option.splits)

lemma setChannelDmPolicy_open:
  "setChannelDmPolicyWithAllowFrom cfg ch ''open'' =
     cfg\<lparr>channels := Some ((channels_of cfg)(channel_key ch \<mapsto>
       (channel_or_empty cfg ch)\<lparr>dmPolicy := Some ''open'',
          allowFrom := Some (map Str (addWildcardAllowFrom (allowFrom (channel_or_empty cfg ch))))\<rparr>))\<rparr>"
  unfolding allowFrom_channel_or_empty [symmetric]
  by (simp add: setChannelDmPolicyWithAllowFrom_def channel_or_empty_def Let_def)

lemma setChannelDmPolicy_other:
  "pol \<noteq> ''open'' \<Longrightarrow> setChannelDmPolicyWithAllowFrom cfg ch pol =
     cfg\<lparr>channels := Some ((channels_of cfg)(channel_key ch \<mapsto>
       (channel_or_empty cfg ch)\<lparr>dmPolicy := Some pol\<rparr>))\<rparr>"
  by (simp add: setChannelDmPolicyWithAllowFrom_def channel_or_empty_def Let_def)

lemma open_on_duplicates:
  "channel_of (setChannelDmPolicyWithAllowFrom cfg_signal_duplicates signal ''open'') signal
     = Some \<lparr>allowFrom = Some [Str ''+1555'', Str ''+1555'', Str ''*''], dmPolicy = Some ''open'',
             accounts = None, chan_other = Map.empty\<rparr>"
  by (simp add: setChannelDmPolicy_open channel_of_def channel_or_empty_def channels_of_def
      cfg_signal_duplicates_def addWildcardAllowFrom_def js_eval)

text \<open>
  Claim C5, as stated, fails: on a channel whose \<^verbatim>\<open>allowFrom\<close> is
  \<^verbatim>\<open>["+1555", "+1555"]\<close>, the policy \<^verbatim>\<open>"open"\<close> yields \<^verbatim>\<open>["+1555", "+1555", "*"]\<close>, which is
  not duplicate-free.
\<close>

theorem setChannelDmPolicyWithAllowFrom_counterexample:
  "allowFrom (the (channel_of (setChannelDmPolicyWithAllowFrom cfg_signal_duplicates signal ''open'') signal))
     = Some [Str ''+1555'', Str ''+1555'', Str ''*'']
   \<and> \<not> distinct (the (allowFrom (the (channel_of
           (setChannelDmPolicyWithAllowFrom cfg_signal_duplicates signal ''open'') signal))))"
  by (simp add: open_on_duplicates)

text \<open>
  Claim C5, amended. \<^verbatim>\<open>setChannelDmPolicyWithAllowFrom\<close> sets the channel's
  \<^verbatim>\<open>dmPolicy\<close> and leaves the rest of the snapshot as it is, except that for the policy
  \<^verbatim>\<open>"open"\<close>, and for no other, the channel's \<^verbatim>\<open>allowFrom\<close> becomes the result of
  \<^verbatim>\<open>addWildcardAllowFrom\<close>: the trimmed, non-empty text values of the old entries, in
  their order and with the duplicates they had, followed by the wildcard unless it is
  already among them. That list is duplicate-free exactly when the old values were, and
  then it is the merge of the old entries with the wildcard.
\<close>

theorem setChannelDmPolicyWithAllowFrom_wildcard:
  "cfg_other (setChannelDmPolicyWithAllowFrom cfg ch pol) = cfg_other cfg
   \<and> (\<forall>k. k \<noteq> channel_key ch \<longrightarrow>
         channels_of (setChannelDmPolicyWithAllowFrom cfg ch pol) k = channels_of cfg k)
   \<and> (pol = ''open'' \<longrightarrow>
         channel_of (setChannelDmPolicyWithAllowFrom cfg ch pol) ch
           = Some ((channel_or_empty cfg ch)\<lparr>dmPolicy := Some pol,
               allowFrom := Some (map Str (addWildcardAllowFrom (allowFrom (channel_or_empty cfg ch))))\<rparr>))
   \<and> (pol \<noteq> ''open'' \<longrightarrow>
         channel_of (setChannelDmPolicyWithAllowFrom cfg ch pol) ch
           = Some ((channel_or_empty cfg ch)\<lparr>dmPolicy := Some pol\<rparr>))
   \<and> addWildcardAllowFrom xs =
         (if ''*'' \<in> set (texts_of (case xs of None \<Rightarrow> [] | Some l \<Rightarrow> l))
          then texts_of (case xs of None \<Rightarrow> [] | Some l \<Rightarrow> l)
          else texts_of (case xs of None \<Rightarrow> [] | Some l \<Rightarrow> l) @ [''*''])
   \<and> (\<forall>x\<in>set (addWildcardAllowFrom xs). x \<noteq> [] \<and> trim x = x)
   \<and> (distinct (addWildcardAllowFrom xs)
        \<longleftrightarrow> distinct (texts_of (case xs of None \<Rightarrow> [] | Some l \<Rightarrow> l)))
   \<and> (distinct (texts_of (case xs of None \<Rightarrow> [] | Some l \<Rightarrow> l)) \<longrightarrow>
         addWildcardAllowFrom xs = mergeAllowFromEntries xs [Str ''*''])"
proof (intro conjI impI allI ballI)
  show "cfg_other (setChannelDmPolicyWithAllowFrom cfg ch pol) = cfg_other cfg"
    by (simp add: setChannelDmPolicyWithAllowFrom_def Let_def)
next
  fix k assume "k \<noteq> channel_key ch"
  then show "channels_of (setChannelDmPolicyWithAllowFrom cfg ch pol) k = channels_of cfg k"
    by (simp add: setChannelDmPolicyWithAllowFrom_def Let_def)
next
  assume "pol = ''open''"
  then show "channel_of (setChannelDmPolicyWithAllowFrom cfg ch pol) ch
           = Some ((channel_or_empty cfg ch)\<lparr>dmPolicy := Some pol,
               allowFrom := Some (map Str (addWildcardAllowFrom (allowFrom (channel_or_empty cfg ch))))\<rparr>)"
    by (simp add: setChannelDmPolicy_open channel_of_def)
next
  assume "pol \<noteq> ''open''"
  then show "channel_of (setChannelDmPolicyWithAllowFrom cfg ch pol) ch
           = Some ((channel_or_empty cfg ch)\<lparr>dmPolicy := Some pol\<rparr>)"
    by (simp add: setChannelDmPolicy_other channel_of_def)
next
  show "addWildcardAllowFrom xs =
         (if ''*'' \<in> set (texts_of (case xs of None \<Rightarrow> [] | Some l \<Rightarrow> l))
          then texts_of (case xs of None \<Rightarrow> [] | Some l \<Rightarrow> l)
          else texts_of (case xs of None \<Rightarrow> [] | Some l \<Rightarrow> l) @ [''*''])"
    by (rule addWildcardAllowFrom_texts)
next
  fix x assume "x \<in> set (addWildcardAllowFrom xs)"
  then show "x \<noteq> []" and "trim x = x" using addWildcardAllowFrom_trimmed by blast+
next
  show "distinct (addWildcardAllowFrom xs)
        \<longleftrightarrow> distinct (texts_of (case xs of None \<Rightarrow> [] | Some l \<Rightarrow> l))"
    by (rule addWildcardAllowFrom_distinct)
next
  assume "distinct (texts_of (case xs of None \<Rightarrow> [] | Some l \<Rightarrow> l))"
  then show "addWildcardAllowFrom xs = mergeAllowFromEntries xs [Str ''*'']"
    by (rule addWildcardAllowFrom_merge)
qed

theorem setChannelDmPolicyWithAllowFrom_wildcard_witness:
  "channel_or_empty cfg_signal_pairing signal
       = \<lparr>allowFrom = Some [Str ''+1555''], dmPolicy = Some ''pairing'',
          accounts = None, chan_other = Map.empty\<rparr>
   \<and> channel_of (setChannelDmPolicyWithAllowFrom cfg_signal_pairing signal ''open'') signal
       = Some \<lparr>allowFrom = Some [Str ''+1555'', Str ''*''], dmPolicy = Some ''open'',
               accounts = None, chan_other = Map.empty\<rparr>
   \<and> ''pairing'' \<noteq> ''open''
   \<and> channel_of (setChannelDmPolicyWithAllowFrom cfg_signal_pairing signal ''pairing'') signal
       = Some \<lparr>allowFrom = Some [Str ''+1555''], dmPolicy = Some ''pairing'',
               accounts = None, chan_other = Map.empty\<rparr>"
proof -
  have c0: "channel_or_empty cfg_signal_pairing signal
       = \<lparr>allowFrom = Some [Str ''+1555''], dmPolicy = Some ''pairing'',
          accounts = None, chan_other = Map.empty\<rparr>"
    by (simp add: channel_or_empty_def channel_of_def channels_of_def cfg_signal_pairing_def)
  have w: "addWildcardAllowFrom (Some [Str ''+1555'']) = [''+1555'', ''*'']"
    by (simp add: addWildcardAllowFrom_def js_eval)
  have ne: "''pairing'' \<noteq> ''open''" by simp
  from setChannelDmPolicyWithAllowFrom_wildcard
    [where cfg = cfg_signal_pairing and ch = signal and pol = "''open''"]
  have 1: "channel_of (setChannelDmPolicyWithAllowFrom cfg_signal_pairing signal ''open'') signal
           = Some ((channel_or_empty cfg_signal_pairing signal)\<lparr>dmPolicy := Some ''open'',
               allowFrom := Some (map Str (addWildcardAllowFrom (allowFrom (channel_or_empty cfg_signal_pairing signal))))\<rparr>)"
    by blast
  from setChannelDmPolicyWithAllowFrom_wildcard
    [where cfg = cfg_signal_pairing and ch = signal and pol = "''pairing''"] ne
  have 2: "channel_of (setChannelDmPolicyWithAllowFrom cfg_signal_pairing signal ''pairing'') signal
           = Some ((channel_or_empty cfg_signal_pairing signal)\<lparr>dmPolicy := Some ''pairing''\<rparr>)"
    by blast
  from 1 2 c0 w ne show ?thesis by simp
qed

subsection \<open>The allowlist resolution loop\<close>

text \<open>The equations that run the loop on the test doubles.\<close>

lemmas loop_eval = promptResolvedAllowFrom.simps test_params_def createPrompter_def
  scripted_resolveEntries_def digits_only_def has_token_def text_args_def parsed_ids_def
  unresolved_res_def id_of_def splitOnboardingEntries_def split_runs.simps is_sep_def
  mergeAllowFromEntries_def js_eval

lemma round_text_throws:
  "prompt_text (prompter p) (text_args p) w = (Inl e, w1) \<Longrightarrow>
   promptResolvedAllowFrom p w = Some (Inl e, w1)"
  by (subst promptResolvedAllowFrom.simps) simp

lemma round_local:
  assumes "\<not> has_token p" and "prompt_text (prompter p) (text_args p) w = (Inr entry, w1)"
  shows "promptResolvedAllowFrom p w =
     (if length (parsed_ids (parseId p) (parseInputs p entry)) \<noteq> length (parseInputs p entry)
      then (case prompt_note (prompter p) (invalidWithoutTokenNote p) (label p) w1 of
              (Inl e, w2) \<Rightarrow> Some (Inl e, w2)
            | (Inr u, w2) \<Rightarrow> promptResolvedAllowFrom p w2)
      else Some (Inr (mergeAllowFromEntries (Some (existing p))
                  (map Str (parsed_ids (parseId p) (parseInputs p entry)))), w1))"
  by (subst promptResolvedAllowFrom.simps) (simp add: assms Let_def)

lemma round_rejected:
  assumes "has_token p" and "prompt_text (prompter p) (text_args p) w = (Inr entry, w1)"
    and "resolveEntries p (the (token p)) (parseInputs p entry) w1 = (Inl err, w2)"
  shows "promptResolvedAllowFrom p w =
     (case prompt_note (prompter p) ''Failed to resolve usernames. Try again.'' (label p) w2 of
        (Inl e, w3) \<Rightarrow> Some (Inl e, w3)
      | (Inr u, w3) \<Rightarrow> promptResolvedAllowFrom p w3)"
  by (subst promptResolvedAllowFrom.simps) (simp add: assms Let_def)

lemma round_resolved:
  assumes "has_token p" and "prompt_text (prompter p) (text_args p) w = (Inr entry, w1)"
    and "resolveEntries p (the (token p)) (parseInputs p entry) w1 = (Inr results, w2)"
  shows "promptResolvedAllowFrom p w =
     (if filter unresolved_res results \<noteq> []
      then (case prompt_note (prompter p)
                   (''Could not resolve: '' @ join '', '' (map input (filter unresolved_res results)))
                   (label p) w2 of
              (Inl e, w3) \<Rightarrow> Some (Inl e, w3)
            | (Inr u, w3) \<Rightarrow> promptResolvedAllowFrom p w3)
      else Some (Inr (mergeAllowFromEntries (Some (existing p)) (map Str (map id_of results))), w2))"
  by (subst promptResolvedAllowFrom.simps) (simp add: assms Let_def)

lemma length_filter_eq_iff:
  "length (filter P xs) = length xs \<longleftrightarrow> (\<forall>x\<in>set xs. P x)"
proof (induction xs)
  case Nil
  then show ?case by simp
next
  case (Cons x xs)
  have "length (filter P xs) \<le> length xs" by (rule length_filter_le)
  then have "length (filter P xs) \<noteq> Suc (length xs)" by linarith
  with Cons show ?case by simp
qed

lemma parsed_ids_length:
  "length (parsed_ids f parts) = length parts \<longleftrightarrow>
     (\<forall>part\<in>set parts. \<exists>s. f part = Some s \<and> s \<noteq> [])"
proof -
  have "length (parsed_ids f parts) = length parts \<longleftrightarrow>
      (\<forall>x\<in>set (map (\<lambda>part. case f part of None \<Rightarrow> [] | Some s \<Rightarrow> s) parts). x \<noteq> [])"
    unfolding parsed_ids_def filter_Boolean_def
    using length_filter_eq_iff [of "\<lambda>s. s \<noteq> []" "map (\<lambda>part. case f part of None \<Rightarrow> [] | Some s \<Rightarrow> s) parts"]
    by (simp only: length_map)
  also have "\<dots> \<longleftrightarrow> (\<forall>part\<in>set parts. \<exists>s. f part = Some s \<and> s \<noteq> [])"
    by (auto split: option.splits)
  finally show ?thesis .
qed

lemma parsed_ids_all:
  assumes "\<forall>part\<in>set parts. \<exists>s. f part = Some s \<and> s \<noteq> []"
  shows "parsed_ids f parts = map (\<lambda>part. the (f part)) parts"
  using assms by (induction parts) (auto simp: parsed_ids_def filter_Boolean_def)

lemma filter_unresolved_Nil:
  "filter unresolved_res results = [] \<longleftrightarrow> (\<forall>r\<in>set results. \<not> unresolved_res r)"
  by (simp add: filter_empty_conv)

lemma exits:
  assumes "promptResolvedAllowFrom p w = Some y"
  shows "(\<exists>e w0. prompt_text (prompter p) (text_args p) w0 = (Inl e, snd y) \<and> y = (Inl e, snd y))
       \<or> (\<exists>e msg w0. prompt_note (prompter p) msg (label p) w0 = (Inl e, snd y) \<and> y = (Inl e, snd y))
       \<or> (\<not> has_token p \<and> (\<exists>w0 entry.
             prompt_text (prompter p) (text_args p) w0 = (Inr entry, snd y)
             \<and> length (parsed_ids (parseId p) (parseInputs p entry)) = length (parseInputs p entry)
             \<and> y = (Inr (mergeAllowFromEntries (Some (existing p))
                       (map Str (parsed_ids (parseId p) (parseInputs p entry)))), snd y)))
       \<or> (has_token p \<and> (\<exists>w0 entry w1 results.
             prompt_text (prompter p) (text_args p) w0 = (Inr entry, w1)
             \<and> resolveEntries p (the (token p)) (parseInputs p entry) w1 = (Inr results, snd y)
             \<and> filter unresolved_res results = []
             \<and> y = (Inr (mergeAllowFromEntries (Some (existing p)) (map Str (map id_of results))), snd y)))"
proof -
  let ?Q = "\<lambda>p (w::'w) y. (\<exists>e w0. prompt_text (prompter p) (text_args p) w0 = (Inl e, snd y) \<and> y = (Inl e, snd y))
       \<or> (\<exists>e msg w0. prompt_note (prompter p) msg (label p) w0 = (Inl e, snd y) \<and> y = (Inl e, snd y))
       \<or> (\<not> has_token p \<and> (\<exists>w0 entry.
             prompt_text (prompter p) (text_args p) w0 = (Inr entry, snd y)
             \<and> length (parsed_ids (parseId p) (parseInputs p entry)) = length (parseInputs p entry)
             \<and> y = (Inr (mergeAllowFromEntries (Some (existing p))
                       (map Str (parsed_ids (parseId p) (parseInputs p entry)))), snd y)))
       \<or> (has_token p \<and> (\<exists>w0 entry w1 results.
             prompt_text (prompter p) (text_args p) w0 = (Inr entry, w1)
             \<and> resolveEntries p (the (token p)) (parseInputs p entry) w1 = (Inr results, snd y)
             \<and> filter unresolved_res results = []
             \<and> y = (Inr (mergeAllowFromEntries (Some (existing p)) (map Str (map id_of results))), snd y)))"
  have "?Q p w y"
  proof (rule promptResolvedAllowFrom.raw_induct [where P = ?Q, OF _ assms])
    fix loop :: "('e, 'r, 'w) PromptParams \<Rightarrow> 'w \<Rightarrow> (('e + string list) \<times> 'w) option"
      and p :: "('e, 'r, 'w) PromptParams" and w :: 'w and y
    assume IH: "\<And>p w y. loop p w = Some y \<Longrightarrow> ?Q p w y"
    assume body: "(case prompt_text (prompter p) (text_args p) w of
        (Inl e, w1) \<Rightarrow> Some (Inl e, w1)
      | (Inr entry, w1) \<Rightarrow>
          (let parts = parseInputs p entry in
           if \<not> has_token p then
             (let ids = parsed_ids (parseId p) parts in
              if length ids \<noteq> length parts then
                (case prompt_note (prompter p) (invalidWithoutTokenNote p) (label p) w1 of
                   (Inl e, w2) \<Rightarrow> Some (Inl e, w2)
                 | (Inr _, w2) \<Rightarrow> loop p w2)
              else Some (Inr (mergeAllowFromEntries (Some (existing p)) (map Str ids)), w1))
           else
             (case resolveEntries p (the (token p)) parts w1 of
                (Inl _, w2) \<Rightarrow>
                  (case prompt_note (prompter p) ''Failed to resolve usernames. Try again.'' (label p) w2 of
                     (Inl e, w3) \<Rightarrow> Some (Inl e, w3)
                   | (Inr _, w3) \<Rightarrow> loop p w3)
              | (Inr results, w2) \<Rightarrow>
                  (let unresolved = filter unresolved_res results in
                   if length unresolved > 0 then
                     (case prompt_note (prompter p)
                             (''Could not resolve: '' @ join '', '' (map input unresolved))
                             (label p) w2 of
                        (Inl e, w3) \<Rightarrow> Some (Inl e, w3)
                      | (Inr _, w3) \<Rightarrow> loop p w3)
                   else Some (Inr (mergeAllowFromEntries (Some (existing p)) (map Str (map id_of results))), w2))))) = Some y"

  obtain t w1 where t: "prompt_text (prompter p) (text_args p) w = (t, w1)"
    by (cases "prompt_text (prompter p) (text_args p) w")
  show "?Q p w y"
  proof (cases t)
    case (Inl e)
    with t body have "y = (Inl e, w1)" by simp
    with t Inl show ?thesis by auto
  next
    case (Inr entry)
    note te = t [unfolded Inr]
    show ?thesis
    proof (cases "has_token p")
      case False
      show ?thesis
      proof (cases "length (parsed_ids (parseId p) (parseInputs p entry)) = length (parseInputs p entry)")
        case True
        with False te body have "y = (Inr (mergeAllowFromEntries (Some (existing p))
                       (map Str (parsed_ids (parseId p) (parseInputs p entry)))), w1)"
          by (simp add: Let_def)
        with False True te show ?thesis by auto
      next
        case ne: False
        obtain n w2 where n: "prompt_note (prompter p) (invalidWithoutTokenNote p) (label p) w1 = (n, w2)"
          by (cases "prompt_note (prompter p) (invalidWithoutTokenNote p) (label p) w1")
        show ?thesis
        proof (cases n)
          case (Inl e)
          with False ne te n body have "y = (Inl e, w2)" by (simp add: Let_def)
          with n Inl show ?thesis by auto
        next
          case (Inr u)
          with False ne te n body have "loop p w2 = Some y" by (simp add: Let_def)
          then show ?thesis by (rule IH)
        qed
      qed
    next
      case True
      obtain r w2 where r: "resolveEntries p (the (token p)) (parseInputs p entry) w1 = (r, w2)"
        by (cases "resolveEntries p (the (token p)) (parseInputs p entry) w1")
      show ?thesis
      proof (cases r)
        case (Inl err)
        obtain n w3 where n: "prompt_note (prompter p) ''Failed to resolve usernames. Try again.'' (label p) w2 = (n, w3)"
          by (cases "prompt_note (prompter p) ''Failed to resolve usernames. Try again.'' (label p) w2")
        show ?thesis
        proof (cases n)
          case nl: (Inl e)
          with True te r Inl n body have "y = (Inl e, w3)" by (simp add: Let_def)
          with n nl show ?thesis by auto
        next
          case (Inr u)
          with True te r Inl n body have "loop p w3 = Some y" by (simp add: Let_def)
          then show ?thesis by (rule IH)
        qed
      next
        case (Inr results)
        show ?thesis
        proof (cases "filter unresolved_res results = []")
          case ok: True
          with True te r Inr body have "y = (Inr (mergeAllowFromEntries (Some (existing p))
                (map Str (map id_of results))), w2)"
            by (simp add: Let_def)
          with True te r Inr ok show ?thesis by auto
        next
          case bad: False
          obtain n w3 where n: "prompt_note (prompter p)
              (''Could not resolve: '' @ join '', '' (map input (filter unresolved_res results)))
              (label p) w2 = (n, w3)"
            by (cases "prompt_note (prompter p)
              (''Could not resolve: '' @ join '', '' (map input (filter unresolved_res results)))
              (label p) w2")
          show ?thesis
          proof (cases n)
            case nl: (Inl e)
            with True te r Inr bad n body have "y = (Inl e, w3)" by (simp add: Let_def)
            with n nl show ?thesis by auto
          next
            case nr: (Inr u)
            with True te r Inr bad n body have "loop p w3 = Some y" by (simp add: Let_def)
            then show ?thesis by (rule IH)
          qed
        qed
      qed
    qed
  qed
  qed
  then show ?thesis .
qed

lemma counting_simps [simp]:
  "has_token (counting p) = has_token p"
  "text_args (counting p) = text_args p"
  "token (counting p) = token p"
  "existing (counting p) = existing p"
  "label (counting p) = label p"
  "parseInputs (counting p) = parseInputs p"
  "prompt_text (prompter (counting p)) tp (w, n) =
     (case prompt_text (prompter p) tp w of (r, w') \<Rightarrow> (r, (w', n)))"
  "prompt_note (prompter (counting p)) msg lbl (w, n) =
     (case prompt_note (prompter p) msg lbl w of (r, w') \<Rightarrow> (r, (w', n)))"
  "resolveEntries (counting p) tok es (w, n) =
     (case resolveEntries p tok es w of (r, w') \<Rightarrow> (r, (w', Suc n)))"
  by (simp_all add: counting_def has_token_def text_args_def)

lemma two_attempts:
  assumes tok: "has_token p"
    and t1: "prompt_text (prompter p) (text_args p) w = (Inr entry, w1)"
    and r1: "resolveEntries p (the (token p)) (parseInputs p entry) w1 = (Inl err, w2)"
    and n1: "prompt_note (prompter p) ''Failed to resolve usernames. Try again.'' (label p) w2 = (Inr u, w3)"
    and t2: "prompt_text (prompter p) (text_args p) w3 = (Inr entry', w4)"
    and r2: "resolveEntries p (the (token p)) (parseInputs p entry') w4 = (Inr results, w5)"
    and ok: "\<forall>r\<in>set results. \<not> unresolved_res r"
  shows "promptResolvedAllowFrom p w
           = Some (Inr (mergeAllowFromEntries (Some (existing p)) (map Str (map id_of results))), w5)"
proof -
  have "promptResolvedAllowFrom p w = promptResolvedAllowFrom p w3"
    using round_rejected [OF tok t1 r1] n1 by simp
  also have "\<dots> = Some (Inr (mergeAllowFromEntries (Some (existing p)) (map Str (map id_of results))), w5)"
    using round_resolved [OF tok t2 r2] ok by (simp add: filter_unresolved_Nil)
  finally show ?thesis .
qed

lemma two_attempts_counted:
  assumes tok: "has_token p"
    and t1: "prompt_text (prompter p) (text_args p) w = (Inr entry, w1)"
    and r1: "resolveEntries p (the (token p)) (parseInputs p entry) w1 = (Inl err, w2)"
    and n1: "prompt_note (prompter p) ''Failed to resolve usernames. Try again.'' (label p) w2 = (Inr u, w3)"
    and t2: "prompt_text (prompter p) (text_args p) w3 = (Inr entry', w4)"
    and r2: "resolveEntries p (the (token p)) (parseInputs p entry') w4 = (Inr results, w5)"
    and ok: "\<forall>r\<in>set results. \<not> unresolved_res r"
  shows "promptResolvedAllowFrom (counting p) (w, n)
           = Some (Inr (mergeAllowFromEntries (Some (existing p)) (map Str (map id_of results))), (w5, n + 2))"
proof -
  have "promptResolvedAllowFrom (counting p) (w, n)
      = Some (Inr (mergeAllowFromEntries (Some (existing (counting p))) (map Str (map id_of results))), (w5, Suc (Suc n)))"
  proof (rule two_attempts [where entry = entry and entry' = entry' and err = err and u = u
        and ?w1.0 = "(w1, n)" and ?w2.0 = "(w2, Suc n)" and ?w3.0 = "(w3, Suc n)"
        and ?w4.0 = "(w4, Suc n)"])
    show "has_token (counting p)" using tok by simp
    show "prompt_text (prompter (counting p)) (text_args (counting p)) (w, n) = (Inr entry, (w1, n))"
      using t1 by simp
    show "resolveEntries (counting p) (the (token (counting p))) (parseInputs (counting p) entry) (w1, n)
        = (Inl err, (w2, Suc n))"
      using r1 by simp
    show "prompt_note (prompter (counting p)) ''Failed to resolve usernames. Try again.''
        (label (counting p)) (w2, Suc n) = (Inr u, (w3, Suc n))"
      using n1 by simp
    show "prompt_text (prompter (counting p)) (text_args (counting p)) (w3, Suc n) = (Inr entry', (w4, Suc n))"
      using t2 by simp
    show "resolveEntries (counting p) (the (token (counting p))) (parseInputs (counting p) entry') (w4, Suc n)
        = (Inr results, (w5, Suc (Suc n)))"
      using r2 by simp
    show "\<forall>r\<in>set results. \<not> unresolved_res r" by (rule ok)
  qed
  then show ?thesis by simp
qed

lemma failure_exit:
  assumes "promptResolvedAllowFrom p w = Some (Inl e, w')"
  shows "(\<exists>w0. prompt_text (prompter p) (text_args p) w0 = (Inl e, w'))
       \<or> (\<exists>msg w0. prompt_note (prompter p) msg (label p) w0 = (Inl e, w'))"
  using exits [OF assms] by auto

lemma local_success_exit:
  assumes "\<not> has_token p" and "promptResolvedAllowFrom p w = Some (Inr out, w')"
  shows "\<exists>w0 entry. prompt_text (prompter p) (text_args p) w0 = (Inr entry, w')
     \<and> (\<forall>part\<in>set (parseInputs p entry). \<exists>s. parseId p part = Some s \<and> s \<noteq> [])
     \<and> out = mergeAllowFromEntries (Some (existing p))
               (map (\<lambda>part. Str (the (parseId p part))) (parseInputs p entry))"
proof -
  from exits [OF assms(2)] assms(1) obtain w0 entry where
    t: "prompt_text (prompter p) (text_args p) w0 = (Inr entry, w')"
    and l: "length (parsed_ids (parseId p) (parseInputs p entry)) = length (parseInputs p entry)"
    and o: "out = mergeAllowFromEntries (Some (existing p))
                       (map Str (parsed_ids (parseId p) (parseInputs p entry)))"
    by auto
  from l have a: "\<forall>part\<in>set (parseInputs p entry). \<exists>s. parseId p part = Some s \<and> s \<noteq> []"
    by (simp only: parsed_ids_length)
  from o have "out = mergeAllowFromEntries (Some (existing p))
               (map (\<lambda>part. Str (the (parseId p part))) (parseInputs p entry))"
    by (simp add: parsed_ids_all [OF a] comp_def)
  with t a show ?thesis by blast
qed

lemma directory_success_exit:
  assumes "has_token p" and "promptResolvedAllowFrom p w = Some (Inr out, w')"
  shows "\<exists>w0 entry w1 results.
       prompt_text (prompter p) (text_args p) w0 = (Inr entry, w1)
     \<and> resolveEntries p (the (token p)) (parseInputs p entry) w1 = (Inr results, w')
     \<and> (\<forall>r\<in>set results. \<not> unresolved_res r)
     \<and> out = mergeAllowFromEntries (Some (existing p)) (map Str (map id_of results))"
  using exits [OF assms(2)] assms(1) by (auto simp: filter_unresolved_Nil)

text \<open>
  Claim C3. In local mode (no token), a round whose prompt returned: if the local parser
  gives a non-null, non-empty identifier for every candidate, the loop returns the merge
  of the existing allowlist with those identifiers; otherwise it shows the configured
  notice and, when the notice returns, continues as the loop does from the world after
  the notice, with the same parameters, so with none of the round's candidates. And every
  successful return in local mode comes from such a round in which all candidates parsed.
\<close>

theorem local_mode_all_or_nothing:
  "(\<not> has_token p \<longrightarrow> prompt_text (prompter p) (text_args p) w = (Inr entry, w1) \<longrightarrow>
      ((\<forall>part\<in>set (parseInputs p entry). \<exists>s. parseId p part = Some s \<and> s \<noteq> []) \<longrightarrow>
         promptResolvedAllowFrom p w
           = Some (Inr (mergeAllowFromEntries (Some (existing p))
                     (map (\<lambda>part. Str (the (parseId p part))) (parseInputs p entry))), w1))
      \<and> (\<not> (\<forall>part\<in>set (parseInputs p entry). \<exists>s. parseId p part = Some s \<and> s \<noteq> []) \<longrightarrow>
         promptResolvedAllowFrom p w
           = (case prompt_note (prompter p) (invalidWithoutTokenNote p) (label p) w1 of
                (Inl e, w2) \<Rightarrow> Some (Inl e, w2)
              | (Inr u, w2) \<Rightarrow> promptResolvedAllowFrom p w2)))
   \<and> (\<not> has_token p \<longrightarrow> promptResolvedAllowFrom p w = Some (Inr out, w') \<longrightarrow>
        (\<exists>w0 entry. prompt_text (prompter p) (text_args p) w0 = (Inr entry, w')
           \<and> (\<forall>part\<in>set (parseInputs p entry). \<exists>s. parseId p part = Some s \<and> s \<noteq> [])
           \<and> out = mergeAllowFromEntries (Some (existing p))
                     (map (\<lambda>part. Str (the (parseId p part))) (parseInputs p entry))))"
proof (intro conjI impI)
  assume tok: "\<not> has_token p" and t: "prompt_text (prompter p) (text_args p) w = (Inr entry, w1)"
  note r = round_local [OF tok t]
  {
    assume a: "\<forall>part\<in>set (parseInputs p entry). \<exists>s. parseId p part = Some s \<and> s \<noteq> []"
    then have "length (parsed_ids (parseId p) (parseInputs p entry)) = length (parseInputs p entry)"
      by (simp only: parsed_ids_length)
    with r show "promptResolvedAllowFrom p w
           = Some (Inr (mergeAllowFromEntries (Some (existing p))
                     (map (\<lambda>part. Str (the (parseId p part))) (parseInputs p entry))), w1)"
      by (simp add: parsed_ids_all [OF a] comp_def)
  }
  {
    assume "\<not> (\<forall>part\<in>set (parseInputs p entry). \<exists>s. parseId p part = Some s \<and> s \<noteq> [])"
    then have "length (parsed_ids (parseId p) (parseInputs p entry)) \<noteq> length (parseInputs p entry)"
      unfolding parsed_ids_length .
    with r show "promptResolvedAllowFrom p w
           = (case prompt_note (prompter p) (invalidWithoutTokenNote p) (label p) w1 of
                (Inl e, w2) \<Rightarrow> Some (Inl e, w2)
              | (Inr u, w2) \<Rightarrow> promptResolvedAllowFrom p w2)"
      by simp
  }
next
  assume "\<not> has_token p" and "promptResolvedAllowFrom p w = Some (Inr out, w')"
  then show "\<exists>w0 entry. prompt_text (prompter p) (text_args p) w0 = (Inr entry, w')
           \<and> (\<forall>part\<in>set (parseInputs p entry). \<exists>s. parseId p part = Some s \<and> s \<noteq> [])
           \<and> out = mergeAllowFromEntries (Some (existing p))
                     (map (\<lambda>part. Str (the (parseId p part))) (parseInputs p entry))"
    by (rule local_success_exit)
qed

theorem local_mode_all_or_nothing_witness:
  "\<not> has_token (test_params [Str ''111''] (Some []))
   \<and> parseInputs (test_params [Str ''111''] (Some [])) ''@alice,123'' = [''@alice'', ''123'']
   \<and> parseId (test_params [Str ''111''] (Some [])) ''@alice'' = None
   \<and> promptResolvedAllowFrom (test_params [Str ''111''] (Some []))
        \<lparr>inputs = [''@alice,123'', ''123''], responses = [], shown_notes = [], resolve_calls = []\<rparr>
      = Some (Inr [''111'', ''123''],
          \<lparr>inputs = [], responses = [], shown_notes = [(''ids only'', ''allowlist'')],
           resolve_calls = []\<rparr>)"
proof -
  let ?p = "test_params [Str ''111''] (Some [])"
  let ?w = "\<lparr>inputs = [''@alice,123'', ''123''], responses = [], shown_notes = [], resolve_calls = []\<rparr>"
  let ?w1 = "\<lparr>inputs = [''123''], responses = [], shown_notes = [], resolve_calls = []\<rparr>"
  let ?w2 = "\<lparr>inputs = [''123''], responses = [], shown_notes = [(''ids only'', ''allowlist'')],
       resolve_calls = []\<rparr>"
  have tok: "\<not> has_token ?p" by (simp add: loop_eval)
  have t: "prompt_text (prompter ?p) (text_args ?p) ?w = (Inr ''@alice,123'', ?w1)"
    by (simp add: test_params_def createPrompter_def)
  have parts: "parseInputs ?p ''@alice,123'' = [''@alice'', ''123'']"
    by (simp add: loop_eval)
  have bad: "parseId ?p ''@alice'' = None"
    by (simp add: loop_eval)
  have inv: "\<not> (\<forall>part\<in>set (parseInputs ?p ''@alice,123''). \<exists>s. parseId ?p part = Some s \<and> s \<noteq> [])"
    unfolding parts using bad by simp
  have n: "prompt_note (prompter ?p) (invalidWithoutTokenNote ?p) (label ?p) ?w1 = (Inr (), ?w2)"
    by (simp add: test_params_def createPrompter_def)
  from local_mode_all_or_nothing [where p = ?p and w = ?w and entry = "''@alice,123''" and ?w1.0 = ?w1]
    tok t inv
  have "promptResolvedAllowFrom ?p ?w
      = (case prompt_note (prompter ?p) (invalidWithoutTokenNote ?p) (label ?p) ?w1 of
                (Inl e, w2) \<Rightarrow> Some (Inl e, w2)
              | (Inr u, w2) \<Rightarrow> promptResolvedAllowFrom ?p w2)"
    by blast
  then have "promptResolvedAllowFrom ?p ?w = promptResolvedAllowFrom ?p ?w2"
    unfolding n by simp
  also have "\<dots> = Some (Inr [''111'', ''123''],
          \<lparr>inputs = [], responses = [], shown_notes = [(''ids only'', ''allowlist'')],
           resolve_calls = []\<rparr>)"
    by (simp add: loop_eval)
  finally show ?thesis using tok parts bad by simp
qed

text \<open>
  Claim C1. In directory mode (token present), a round whose prompt returned and whose
  resolver call fulfilled: if some result is unacceptable (not resolved, or without a
  non-empty identifier), the loop shows the notice \<^verbatim>\<open>Could not resolve: \<close> followed by
  the input texts of exactly the unacceptable results joined by \<^verbatim>\<open>", "\<close> and, when the
  notice returns, continues as the loop does from the world after the notice, with the
  same parameters, so with none of the round's candidates; if every result is
  acceptable, it returns the merge of the existing allowlist with the identifiers of
  this round's results. And every successful return in directory mode comes from a
  round all of whose results were acceptable, and is the merge of the existing allowlist
  with the identifiers of that round.
\<close>

theorem directory_mode_all_or_nothing:
  "(has_token p \<longrightarrow> prompt_text (prompter p) (text_args p) w = (Inr entry, w1) \<longrightarrow>
      resolveEntries p (the (token p)) (parseInputs p entry) w1 = (Inr results, w2) \<longrightarrow>
      ((\<exists>r. r \<in> set results \<and> unresolved_res r) \<longrightarrow>
         promptResolvedAllowFrom p w
           = (case prompt_note (prompter p)
                     (''Could not resolve: '' @ join '', '' (map input (filter unresolved_res results)))
                     (label p) w2 of
                (Inl e, w3) \<Rightarrow> Some (Inl e, w3)
              | (Inr u, w3) \<Rightarrow> promptResolvedAllowFrom p w3))
      \<and> ((\<forall>r\<in>set results. \<not> unresolved_res r) \<longrightarrow>
         promptResolvedAllowFrom p w
           = Some (Inr (mergeAllowFromEntries (Some (existing p)) (map Str (map id_of results))), w2)))
   \<and> (has_token p \<longrightarrow> promptResolvedAllowFrom p w = Some (Inr out, w') \<longrightarrow>
        (\<exists>w0 entry w1 results.
             prompt_text (prompter p) (text_args p) w0 = (Inr entry, w1)
           \<and> resolveEntries p (the (token p)) (parseInputs p entry) w1 = (Inr results, w')
           \<and> (\<forall>r\<in>set results. \<not> unresolved_res r)
           \<and> out = mergeAllowFromEntries (Some (existing p)) (map Str (map id_of results))))
   \<and> (unresolved_res res \<longleftrightarrow> \<not> resolved res \<or> res_id res = None \<or> res_id res = Some [])
   \<and> (\<not> unresolved_res res \<longrightarrow> res_id res = Some (id_of res))"
proof (intro conjI impI)
  assume tok: "has_token p" and t: "prompt_text (prompter p) (text_args p) w = (Inr entry, w1)"
    and r: "resolveEntries p (the (token p)) (parseInputs p entry) w1 = (Inr results, w2)"
  note eq = round_resolved [OF tok t r]
  {
    assume "\<exists>r. r \<in> set results \<and> unresolved_res r"
    then have "filter unresolved_res results \<noteq> []"
      unfolding filter_unresolved_Nil by blast
    with eq show "promptResolvedAllowFrom p w
           = (case prompt_note (prompter p)
                     (''Could not resolve: '' @ join '', '' (map input (filter unresolved_res results)))
                     (label p) w2 of
                (Inl e, w3) \<Rightarrow> Some (Inl e, w3)
              | (Inr u, w3) \<Rightarrow> promptResolvedAllowFrom p w3)"
      by simp
  }
  {
    assume "\<forall>r\<in>set results. \<not> unresolved_res r"
    then have "filter unresolved_res results = []"
      unfolding filter_unresolved_Nil .
    with eq show "promptResolvedAllowFrom p w
           = Some (Inr (mergeAllowFromEntries (Some (existing p)) (map Str (map id_of results))), w2)"
      by simp
  }
next
  assume "has_token p" and "promptResolvedAllowFrom p w = Some (Inr out, w')"
  then show "\<exists>w0 entry w1 results.
             prompt_text (prompter p) (text_args p) w0 = (Inr entry, w1)
           \<and> resolveEntries p (the (token p)) (parseInputs p entry) w1 = (Inr results, w')
           \<and> (\<forall>r\<in>set results. \<not> unresolved_res r)
           \<and> out = mergeAllowFromEntries (Some (existing p)) (map Str (map id_of results))"
    by (rule directory_success_exit)
next
  show "unresolved_res res \<longleftrightarrow> \<not> resolved res \<or> res_id res = None \<or> res_id res = Some []"
    by (cases "res_id res") (simp_all add: unresolved_res_def)
next
  assume "\<not> unresolved_res res"
  then show "res_id res = Some (id_of res)"
    by (cases "res_id res") (simp_all add: unresolved_res_def id_of_def)
qed

lemmas fixture_eval = unresolved_alice_def resolved_bob_def resolved_carol_def

theorem directory_mode_all_or_nothing_witness:
  "has_token (test_params [] (Some ''xoxb-test''))
   \<and> unresolved_res unresolved_alice
   \<and> promptResolvedAllowFrom (test_params [] (Some ''xoxb-test''))
        \<lparr>inputs = [''alice, bob'', ''carol''],
         responses = [Inr [unresolved_alice, resolved_bob], Inr [resolved_carol]],
         shown_notes = [], resolve_calls = []\<rparr>
      = Some (Inr [''U234''],
          \<lparr>inputs = [], responses = [],
           shown_notes = [(''Could not resolve: alice'', ''allowlist'')],
           resolve_calls = [(''xoxb-test'', [''alice'', ''bob'']), (''xoxb-test'', [''carol''])]\<rparr>)"
proof -
  let ?p = "test_params [] (Some ''xoxb-test'')"
  let ?w = "\<lparr>inputs = [''alice, bob'', ''carol''],
         responses = [Inr [unresolved_alice, resolved_bob], Inr [resolved_carol]],
         shown_notes = [], resolve_calls = []\<rparr>"
  let ?w1 = "\<lparr>inputs = [''carol''],
         responses = [Inr [unresolved_alice, resolved_bob], Inr [resolved_carol]],
         shown_notes = [], resolve_calls = []\<rparr>"
  let ?w2 = "\<lparr>inputs = [''carol''], responses = [Inr [resolved_carol]],
         shown_notes = [], resolve_calls = [(''xoxb-test'', [''alice'', ''bob''])]\<rparr>"
  let ?w3 = "\<lparr>inputs = [''carol''], responses = [Inr [resolved_carol]],
         shown_notes = [(''Could not resolve: alice'', ''allowlist'')],
         resolve_calls = [(''xoxb-test'', [''alice'', ''bob''])]\<rparr>"
  have tok: "has_token ?p" by (simp add: loop_eval)
  have t: "prompt_text (prompter ?p) (text_args ?p) ?w = (Inr ''alice, bob'', ?w1)"
    by (simp add: test_params_def createPrompter_def)
  have parts: "parseInputs ?p ''alice, bob'' = [''alice'', ''bob'']"
    by (simp add: loop_eval)
  have r: "resolveEntries ?p (the (token ?p)) (parseInputs ?p ''alice, bob'') ?w1
      = (Inr [unresolved_alice, resolved_bob], ?w2)"
    unfolding parts by (simp add: test_params_def scripted_resolveEntries_def)
  have u: "unresolved_res unresolved_alice" "\<not> unresolved_res resolved_bob"
    by (simp_all add: unresolved_res_def fixture_eval)
  then have ex: "\<exists>r. r \<in> set [unresolved_alice, resolved_bob] \<and> unresolved_res r" by auto
  have n: "prompt_note (prompter ?p)
      (''Could not resolve: '' @ join '', '' (map input (filter unresolved_res [unresolved_alice, resolved_bob])))
      (label ?p) ?w2 = (Inr (), ?w3)"
    using u by (simp add: test_params_def createPrompter_def fixture_eval)
  from directory_mode_all_or_nothing [where p = ?p and w = ?w and entry = "''alice, bob''"
      and ?w1.0 = ?w1 and results = "[unresolved_alice, resolved_bob]" and ?w2.0 = ?w2]
    tok t r ex
  have "promptResolvedAllowFrom ?p ?w
      = (case prompt_note (prompter ?p)
                     (''Could not resolve: '' @ join '', '' (map input (filter unresolved_res [unresolved_alice, resolved_bob])))
                     (label ?p) ?w2 of
                (Inl e, w3) \<Rightarrow> Some (Inl e, w3)
              | (Inr u, w3) \<Rightarrow> promptResolvedAllowFrom ?p w3)"
    by blast
  then have "promptResolvedAllowFrom ?p ?w = promptResolvedAllowFrom ?p ?w3"
    unfolding n by simp
  also have "\<dots> = Some (Inr [''U234''],
          \<lparr>inputs = [], responses = [],
           shown_notes = [(''Could not resolve: alice'', ''allowlist'')],
           resolve_calls = [(''xoxb-test'', [''alice'', ''bob'']), (''xoxb-test'', [''carol''])]\<rparr>)"
    by (simp add: loop_eval fixture_eval)
  finally show ?thesis using tok u by simp
qed

text \<open>
  Claim C2. In directory mode, when the call of \<^verbatim>\<open>resolveEntries\<close> rejects, the loop
  shows the notice \<^verbatim>\<open>Failed to resolve usernames. Try again.\<close> and, when the notice
  returns, continues as the loop does from the world after the notice; what it does next
  does not depend on the rejection, which is discarded. If the resolver rejects in one
  round and fulfils with acceptable results in the next, the loop returns the merge of
  the existing allowlist with the identifiers of the second round, and the counted loop
  has made exactly two more resolver calls. An error with which the loop ends is always
  one thrown by the prompter's \<^verbatim>\<open>text\<close> or \<^verbatim>\<open>note\<close>, never the resolver's.
\<close>

theorem resolver_rejection_recovered:
  "(has_token p \<longrightarrow> prompt_text (prompter p) (text_args p) w = (Inr entry, w1) \<longrightarrow>
      resolveEntries p (the (token p)) (parseInputs p entry) w1 = (Inl err, w2) \<longrightarrow>
      promptResolvedAllowFrom p w
        = (case prompt_note (prompter p) ''Failed to resolve usernames. Try again.'' (label p) w2 of
             (Inl e, w3) \<Rightarrow> Some (Inl e, w3)
           | (Inr u, w3) \<Rightarrow> promptResolvedAllowFrom p w3))
   \<and> (has_token p \<longrightarrow> prompt_text (prompter p) (text_args p) w = (Inr entry, w1) \<longrightarrow>
      resolveEntries p (the (token p)) (parseInputs p entry) w1 = (Inl err, w2) \<longrightarrow>
      prompt_note (prompter p) ''Failed to resolve usernames. Try again.'' (label p) w2 = (Inr u, w3) \<longrightarrow>
      prompt_text (prompter p) (text_args p) w3 = (Inr entry', w4) \<longrightarrow>
      resolveEntries p (the (token p)) (parseInputs p entry') w4 = (Inr results, w5) \<longrightarrow>
      (\<forall>r\<in>set results. \<not> unresolved_res r) \<longrightarrow>
        promptResolvedAllowFrom p w
          = Some (Inr (mergeAllowFromEntries (Some (existing p)) (map Str (map id_of results))), w5)
        \<and> promptResolvedAllowFrom (counting p) (w, n)
          = Some (Inr (mergeAllowFromEntries (Some (existing p)) (map Str (map id_of results))),
                  (w5, n + 2)))
   \<and> (promptResolvedAllowFrom p w = Some (Inl e, w') \<longrightarrow>
        (\<exists>w0. prompt_text (prompter p) (text_args p) w0 = (Inl e, w'))
        \<or> (\<exists>msg w0. prompt_note (prompter p) msg (label p) w0 = (Inl e, w')))"
proof (intro conjI impI)
  assume "has_token p" and "prompt_text (prompter p) (text_args p) w = (Inr entry, w1)"
    and "resolveEntries p (the (token p)) (parseInputs p entry) w1 = (Inl err, w2)"
  then show "promptResolvedAllowFrom p w
        = (case prompt_note (prompter p) ''Failed to resolve usernames. Try again.'' (label p) w2 of
             (Inl e, w3) \<Rightarrow> Some (Inl e, w3)
           | (Inr u, w3) \<Rightarrow> promptResolvedAllowFrom p w3)"
    by (rule round_rejected)
next
  assume a: "has_token p" "prompt_text (prompter p) (text_args p) w = (Inr entry, w1)"
    "resolveEntries p (the (token p)) (parseInputs p entry) w1 = (Inl err, w2)"
    "prompt_note (prompter p) ''Failed to resolve usernames. Try again.'' (label p) w2 = (Inr u, w3)"
    "prompt_text (prompter p) (text_args p) w3 = (Inr entry', w4)"
    "resolveEntries p (the (token p)) (parseInputs p entry') w4 = (Inr results, w5)"
    "\<forall>r\<in>set results. \<not> unresolved_res r"
  from a show "promptResolvedAllowFrom p w
          = Some (Inr (mergeAllowFromEntries (Some (existing p)) (map Str (map id_of results))), w5)"
    by (rule two_attempts)
  from a show "promptResolvedAllowFrom (counting p) (w, n)
          = Some (Inr (mergeAllowFromEntries (Some (existing p)) (map Str (map id_of results))),
                  (w5, n + 2))"
    by (rule two_attempts_counted)
next
  assume "promptResolvedAllowFrom p w = Some (Inl e, w')"
  then show "(\<exists>w0. prompt_text (prompter p) (text_args p) w0 = (Inl e, w'))
        \<or> (\<exists>msg w0. prompt_note (prompter p) msg (label p) w0 = (Inl e, w'))"
    by (rule failure_exit)
qed

theorem resolver_rejection_recovered_witness:
  "has_token (test_params [] (Some ''xoxb-test''))
   \<and> promptResolvedAllowFrom (test_params [] (Some ''xoxb-test''))
        \<lparr>inputs = [''alice'', ''carol''], responses = [Inl ''network'', Inr [resolved_carol]],
         shown_notes = [], resolve_calls = []\<rparr>
      = Some (Inr [''U234''],
          \<lparr>inputs = [], responses = [],
           shown_notes = [(''Failed to resolve usernames. Try again.'', ''allowlist'')],
           resolve_calls = [(''xoxb-test'', [''alice'']), (''xoxb-test'', [''carol''])]\<rparr>)
   \<and> promptResolvedAllowFrom (counting (test_params [] (Some ''xoxb-test'')))
        (\<lparr>inputs = [''alice'', ''carol''], responses = [Inl ''network'', Inr [resolved_carol]],
          shown_notes = [], resolve_calls = []\<rparr>, 0)
      = Some (Inr [''U234''],
          (\<lparr>inputs = [], responses = [],
            shown_notes = [(''Failed to resolve usernames. Try again.'', ''allowlist'')],
            resolve_calls = [(''xoxb-test'', [''alice'']), (''xoxb-test'', [''carol''])]\<rparr>, 2))"
proof -
  let ?p = "test_params [] (Some ''xoxb-test'')"
  let ?w = "\<lparr>inputs = [''alice'', ''carol''], responses = [Inl ''network'', Inr [resolved_carol]],
         shown_notes = [], resolve_calls = []\<rparr>"
  let ?w1 = "\<lparr>inputs = [''carol''], responses = [Inl ''network'', Inr [resolved_carol]],
         shown_notes = [], resolve_calls = []\<rparr>"
  let ?w2 = "\<lparr>inputs = [''carol''], responses = [Inr [resolved_carol]],
         shown_notes = [], resolve_calls = [(''xoxb-test'', [''alice''])]\<rparr>"
  let ?w3 = "\<lparr>inputs = [''carol''], responses = [Inr [resolved_carol]],
         shown_notes = [(''Failed to resolve usernames. Try again.'', ''allowlist'')],
         resolve_calls = [(''xoxb-test'', [''alice''])]\<rparr>"
  let ?w4 = "\<lparr>inputs = [], responses = [Inr [resolved_carol]],
         shown_notes = [(''Failed to resolve usernames. Try again.'', ''allowlist'')],
         resolve_calls = [(''xoxb-test'', [''alice''])]\<rparr>"
  let ?w5 = "\<lparr>inputs = [], responses = [],
         shown_notes = [(''Failed to resolve usernames. Try again.'', ''allowlist'')],
         resolve_calls = [(''xoxb-test'', [''alice'']), (''xoxb-test'', [''carol''])]\<rparr>"
  have tok: "has_token ?p" by (simp add: loop_eval)
  have t1: "prompt_text (prompter ?p) (text_args ?p) ?w = (Inr ''alice'', ?w1)"
    by (simp add: test_params_def createPrompter_def)
  have p1: "parseInputs ?p ''alice'' = [''alice'']" by (simp add: loop_eval)
  have r1: "resolveEntries ?p (the (token ?p)) (parseInputs ?p ''alice'') ?w1 = (Inl ''network'', ?w2)"
    unfolding p1 by (simp add: test_params_def scripted_resolveEntries_def)
  have n1: "prompt_note (prompter ?p) ''Failed to resolve usernames. Try again.'' (label ?p) ?w2
      = (Inr (), ?w3)"
    by (simp add: test_params_def createPrompter_def)
  have t2: "prompt_text (prompter ?p) (text_args ?p) ?w3 = (Inr ''carol'', ?w4)"
    by (simp add: test_params_def createPrompter_def)
  have p2: "parseInputs ?p ''carol'' = [''carol'']" by (simp add: loop_eval)
  have r2: "resolveEntries ?p (the (token ?p)) (parseInputs ?p ''carol'') ?w4 = (Inr [resolved_carol], ?w5)"
    unfolding p2 by (simp add: test_params_def scripted_resolveEntries_def)
  have ok: "\<forall>r\<in>set [resolved_carol]. \<not> unresolved_res r"
    by (simp add: unresolved_res_def fixture_eval)
  have m: "mergeAllowFromEntries (Some (existing ?p)) (map Str (map id_of [resolved_carol])) = [''U234'']"
    by (simp add: test_params_def id_of_def fixture_eval mergeAllowFromEntries_def js_eval)
  from resolver_rejection_recovered [where p = ?p and w = ?w and entry = "''alice''" and ?w1.0 = ?w1
      and err = "''network''" and ?w2.0 = ?w2 and u = "()" and ?w3.0 = ?w3 and entry' = "''carol''"
      and ?w4.0 = ?w4 and results = "[resolved_carol]" and ?w5.0 = ?w5 and n = 0]
    tok t1 r1 n1 t2 r2 ok
  have "promptResolvedAllowFrom ?p ?w
          = Some (Inr (mergeAllowFromEntries (Some (existing ?p)) (map Str (map id_of [resolved_carol]))), ?w5)
        \<and> promptResolvedAllowFrom (counting ?p) (?w, 0)
          = Some (Inr (mergeAllowFromEntries (Some (existing ?p)) (map Str (map id_of [resolved_carol]))),
                  (?w5, 0 + 2))"
    by blast
  with tok show ?thesis unfolding m by simp
qed

text \<open>
  Claim C10. The loop checks neither that a round has a candidate nor that the resolver
  answered every candidate. In local mode a round whose parse function yields no
  candidate succeeds with the merge of the existing allowlist with nothing. In directory
  mode a round succeeds as soon as no returned result is unacceptable, whatever the
  number of results and whatever the candidates were, with the merge of the existing
  allowlist with the identifiers returned; an empty result list gives the merge with
  nothing. The merge with nothing is the existing allowlist's own trimmed, non-empty
  values, each once.
\<close>

theorem round_success_unchecked:
  "(\<not> has_token p \<longrightarrow> prompt_text (prompter p) (text_args p) w = (Inr entry, w1) \<longrightarrow>
      parseInputs p entry = [] \<longrightarrow>
      promptResolvedAllowFrom p w = Some (Inr (mergeAllowFromEntries (Some (existing p)) []), w1))
   \<and> (has_token p \<longrightarrow> prompt_text (prompter p) (text_args p) w = (Inr entry, w1) \<longrightarrow>
      resolveEntries p (the (token p)) (parseInputs p entry) w1 = (Inr results, w2) \<longrightarrow>
      (\<forall>r\<in>set results. \<not> unresolved_res r) \<longrightarrow>
      promptResolvedAllowFrom p w
        = Some (Inr (mergeAllowFromEntries (Some (existing p)) (map Str (map id_of results))), w2))
   \<and> (has_token p \<longrightarrow> prompt_text (prompter p) (text_args p) w = (Inr entry, w1) \<longrightarrow>
      resolveEntries p (the (token p)) (parseInputs p entry) w1 = (Inr [], w2) \<longrightarrow>
      promptResolvedAllowFrom p w = Some (Inr (mergeAllowFromEntries (Some (existing p)) []), w2))
   \<and> mergeAllowFromEntries (Some ex) [] = first_occurrences (texts_of ex)
   \<and> set (mergeAllowFromEntries (Some ex) []) = set (texts_of ex)"
proof (intro conjI impI)
  assume tok: "\<not> has_token p" and t: "prompt_text (prompter p) (text_args p) w = (Inr entry, w1)"
    and e: "parseInputs p entry = []"
  from round_local [OF tok t] e
  show "promptResolvedAllowFrom p w = Some (Inr (mergeAllowFromEntries (Some (existing p)) []), w1)"
    by (simp add: parsed_ids_def filter_Boolean_def)
next
  assume tok: "has_token p" and t: "prompt_text (prompter p) (text_args p) w = (Inr entry, w1)"
    and r: "resolveEntries p (the (token p)) (parseInputs p entry) w1 = (Inr results, w2)"
    and ok: "\<forall>r\<in>set results. \<not> unresolved_res r"
  from ok have "filter unresolved_res results = []" unfolding filter_unresolved_Nil .
  with round_resolved [OF tok t r]
  show "promptResolvedAllowFrom p w
        = Some (Inr (mergeAllowFromEntries (Some (existing p)) (map Str (map id_of results))), w2)"
    by simp
next
  assume tok: "has_token p" and t: "prompt_text (prompter p) (text_args p) w = (Inr entry, w1)"
    and r: "resolveEntries p (the (token p)) (parseInputs p entry) w1 = (Inr [], w2)"
  from round_resolved [OF tok t r]
  show "promptResolvedAllowFrom p w = Some (Inr (mergeAllowFromEntries (Some (existing p)) []), w2)"
    by simp
next
  show "mergeAllowFromEntries (Some ex) [] = first_occurrences (texts_of ex)"
    by (simp add: mergeAllowFromEntries_texts Set_of_first_occurrences)
next
  show "set (mergeAllowFromEntries (Some ex) []) = set (texts_of ex)"
    by (simp add: mergeAllowFromEntries_texts)
qed

theorem round_success_unchecked_witness:
  "\<not> has_token (test_params [Str ''111''] None)
   \<and> parseInputs (test_params [Str ''111''] None) '';,;'' = []
   \<and> promptResolvedAllowFrom (test_params [Str ''111''] None)
        \<lparr>inputs = ['';,;''], responses = [], shown_notes = [], resolve_calls = []\<rparr>
      = Some (Inr [''111''], \<lparr>inputs = [], responses = [], shown_notes = [], resolve_calls = []\<rparr>)
   \<and> has_token (test_params [Str ''111''] (Some ''xoxb-test''))
   \<and> parseInputs (test_params [Str ''111''] (Some ''xoxb-test'')) ''alice, bob'' = [''alice'', ''bob'']
   \<and> promptResolvedAllowFrom (test_params [Str ''111''] (Some ''xoxb-test''))
        \<lparr>inputs = [''alice, bob''], responses = [Inr [resolved_carol]], shown_notes = [],
         resolve_calls = []\<rparr>
      = Some (Inr [''111'', ''U234''],
          \<lparr>inputs = [], responses = [], shown_notes = [],
           resolve_calls = [(''xoxb-test'', [''alice'', ''bob''])]\<rparr>)
   \<and> promptResolvedAllowFrom (test_params [Str ''111''] (Some ''xoxb-test''))
        \<lparr>inputs = [''alice, bob''], responses = [Inr []], shown_notes = [], resolve_calls = []\<rparr>
      = Some (Inr [''111''],
          \<lparr>inputs = [], responses = [], shown_notes = [],
           resolve_calls = [(''xoxb-test'', [''alice'', ''bob''])]\<rparr>)"
proof -
  let ?l = "test_params [Str ''111''] None"
  let ?d = "test_params [Str ''111''] (Some ''xoxb-test'')"
  let ?e = "\<lparr>inputs = [], responses = [], shown_notes = [], resolve_calls = []\<rparr>"
  let ?c = "\<lparr>inputs = [], responses = [], shown_notes = [],
           resolve_calls = [(''xoxb-test'', [''alice'', ''bob''])]\<rparr>"
  have ltok: "\<not> has_token ?l" by (simp add: loop_eval)
  have lt: "prompt_text (prompter ?l) (text_args ?l)
      \<lparr>inputs = ['';,;''], responses = [], shown_notes = [], resolve_calls = []\<rparr> = (Inr '';,;'', ?e)"
    by (simp add: test_params_def createPrompter_def)
  have lp: "parseInputs ?l '';,;'' = []" by (simp add: loop_eval)
  have m0: "mergeAllowFromEntries (Some (existing ?l)) [] = [''111'']"
    by (simp add: test_params_def mergeAllowFromEntries_def js_eval)
  note T = round_success_unchecked
  from T [where p = ?l and entry = "'';,;''" and ?w1.0 = ?e
      and w = "\<lparr>inputs = ['';,;''], responses = [], shown_notes = [], resolve_calls = []\<rparr>"]
    ltok lt lp
  have 1: "promptResolvedAllowFrom ?l
        \<lparr>inputs = ['';,;''], responses = [], shown_notes = [], resolve_calls = []\<rparr>
      = Some (Inr (mergeAllowFromEntries (Some (existing ?l)) []), ?e)"
    by blast
  have dtok: "has_token ?d" by (simp add: loop_eval)
  have dp: "parseInputs ?d ''alice, bob'' = [''alice'', ''bob'']" by (simp add: loop_eval)
  have dt: "prompt_text (prompter ?d) (text_args ?d)
      \<lparr>inputs = [''alice, bob''], responses = rs, shown_notes = [], resolve_calls = []\<rparr>
      = (Inr ''alice, bob'', \<lparr>inputs = [], responses = rs, shown_notes = [], resolve_calls = []\<rparr>)"
    for rs by (simp add: test_params_def createPrompter_def)
  have dr: "resolveEntries ?d (the (token ?d)) (parseInputs ?d ''alice, bob'')
      \<lparr>inputs = [], responses = [Inr rs], shown_notes = [], resolve_calls = []\<rparr> = (Inr rs, ?c)"
    for rs unfolding dp by (simp add: test_params_def scripted_resolveEntries_def)
  have ok: "\<forall>r\<in>set [resolved_carol]. \<not> unresolved_res r"
    by (simp add: unresolved_res_def fixture_eval)
  have m1: "mergeAllowFromEntries (Some (existing ?d)) (map Str (map id_of [resolved_carol]))
      = [''111'', ''U234'']"
    by (simp add: test_params_def id_of_def fixture_eval mergeAllowFromEntries_def js_eval)
  have m2: "mergeAllowFromEntries (Some (existing ?d)) [] = [''111'']"
    by (simp add: test_params_def mergeAllowFromEntries_def js_eval)
  from T [where p = ?d and entry = "''alice, bob''" and results = "[resolved_carol]" and ?w2.0 = ?c
      and w = "\<lparr>inputs = [''alice, bob''], responses = [Inr [resolved_carol]], shown_notes = [], resolve_calls = []\<rparr>"
      and ?w1.0 = "\<lparr>inputs = [], responses = [Inr [resolved_carol]], shown_notes = [], resolve_calls = []\<rparr>"]
    dtok dt dr ok
  have 2: "promptResolvedAllowFrom ?d
        \<lparr>inputs = [''alice, bob''], responses = [Inr [resolved_carol]], shown_notes = [], resolve_calls = []\<rparr>
      = Some (Inr (mergeAllowFromEntries (Some (existing ?d)) (map Str (map id_of [resolved_carol]))), ?c)"
    by blast
  from T [where p = ?d and entry = "''alice, bob''" and ?w2.0 = ?c
      and w = "\<lparr>inputs = [''alice, bob''], responses = [Inr []], shown_notes = [], resolve_calls = []\<rparr>"
      and ?w1.0 = "\<lparr>inputs = [], responses = [Inr []], shown_notes = [], resolve_calls = []\<rparr>"]
    dtok dt dr
  have 3: "promptResolvedAllowFrom ?d
        \<lparr>inputs = [''alice, bob''], responses = [Inr []], shown_notes = [], resolve_calls = []\<rparr>
      = Some (Inr (mergeAllowFromEntries (Some (existing ?d)) []), ?c)"
    by blast
  from 1 2 3 ltok lp dtok dp show ?thesis unfolding m0 m1 m2 by simp
qed

end
